theory Spec2Isabelle
  imports Complex_Main "HOL-Library.Word"
begin

unbundle bit_operations_syntax

section \<open>Strings\<close>

text \<open>
  A Python \<open>str\<close> is modelled as a HOL \<open>string\<close>, read as the UTF-8 bytes of the text.
  \<open>str.strip()\<close> removes the leading and trailing characters for which \<open>str.isspace\<close>
  holds; in the ASCII range these are TAB, LF, VT, FF, CR, FS, GS, RS, US and the space.
  \<open>str.lower()\<close> maps \<open>A\<close>..\<open>Z\<close> to \<open>a\<close>..\<open>z\<close>. Whitespace and case mappings beyond
  ASCII are outside the model.
\<close>

definition is_space :: "char \<Rightarrow> bool" where
  "is_space c = (c \<in> set [CHR 0x09, CHR 0x0A, CHR 0x0B, CHR 0x0C, CHR 0x0D,
                           CHR 0x1C, CHR 0x1D, CHR 0x1E, CHR 0x1F, CHR 0x20])"

definition strip :: "string \<Rightarrow> string" where
  "strip s = rev (dropWhile is_space (rev (dropWhile is_space s)))"

definition lower_char :: "char \<Rightarrow> char" where
  "lower_char c =
     (case map_of (zip ''ABCDEFGHIJKLMNOPQRSTUVWXYZ'' ''abcdefghijklmnopqrstuvwxyz'') c of
        Some d \<Rightarrow> d
      | None \<Rightarrow> c)"

definition lower :: "string \<Rightarrow> string" where
  "lower s = map lower_char s"

text \<open>Python's \<open>v or ""\<close> for \<open>v : Optional[str]\<close>: \<open>None\<close> and the empty string are falsy.\<close>

definition or_empty :: "string option \<Rightarrow> string" where
  "or_empty v = (case v of None \<Rightarrow> [] | Some s \<Rightarrow> (if s = [] then [] else s))"

section \<open>Policy resolver\<close>

text \<open>The process environment, as \<open>os.getenv\<close> reads it: a map from names to values.\<close>

type_synonym environ = "string \<rightharpoonup> string"

definition DEFAULT_ENDPOINT :: string where
  "DEFAULT_ENDPOINT = ''https://telemetry.namelessnanashi.dev/census''"

definition PROJECT_NAME :: string where
  "PROJECT_NAME = ''<PROJECT_NAME>''"

definition OPTOUT_ENV_VAR :: string where
  "OPTOUT_ENV_VAR = ''<PROJECT_ACRONYM>_TELEMETRY_OPTOUT''"

definition truthy_tokens :: "string list" where
  "truthy_tokens = [''1'', ''true'', ''yes'', ''on'', ''y'', ''t'']"

definition falsy_tokens :: "string list" where
  "falsy_tokens = [''0'', ''false'', ''no'', ''off'', ''n'', ''f'']"

definition env_truthy :: "string option \<Rightarrow> bool" where
  "env_truthy v = (let s = lower (strip (or_empty v)) in s \<in> set truthy_tokens)"

definition env_falsy :: "string option \<Rightarrow> bool" where
  "env_falsy v = (let s = lower (strip (or_empty v)) in s \<in> set falsy_tokens)"

definition env_opt_out :: "environ \<Rightarrow> bool" where
  "env_opt_out env =
     (if env_truthy (env OPTOUT_ENV_VAR) \<or> env_truthy (env ''TELEMETRY_OPTOUT'') then True
      else let tel = env ''TELEMETRY'' in
        if tel \<noteq> None \<and> env_falsy tel then True
        else False)"

text \<open>\<open>os.getenv("TELEMETRY_ENDPOINT") or _DEFAULT_ENDPOINT\<close>: the default is taken when the
  variable is unset and also when it is set to the empty string.\<close>

definition get_endpoint :: "environ \<Rightarrow> string" where
  "get_endpoint env =
     (case env ''TELEMETRY_ENDPOINT'' of
        None \<Rightarrow> DEFAULT_ENDPOINT
      | Some ep \<Rightarrow> (if ep = [] then DEFAULT_ENDPOINT else ep))"

definition get_project_name :: string where
  "get_project_name = PROJECT_NAME"

section \<open>Calendar and clock\<close>

text \<open>
  A \<open>datetime\<close> in UTC, with the fields Python's \<open>datetime\<close> has. The arithmetic the
  source uses on it is that of the standard library: \<open>replace\<close> is a field update, adding
  a \<open>timedelta\<close> of hours carries into the date, and the difference of two datetimes is
  a number of microseconds (\<open>total_seconds\<close> divides it by \<open>10^6\<close>). The proleptic
  Gregorian day number is computed as the library does. The upper end of Python's
  datetime range (year 9999) is outside the model: years are unbounded.
\<close>

record datetime =
  year :: nat
  month :: nat
  day :: nat
  hour :: nat
  minute :: nat
  second :: nat
  microsecond :: nat

definition utc :: "nat \<Rightarrow> nat \<Rightarrow> nat \<Rightarrow> nat \<Rightarrow> nat \<Rightarrow> nat \<Rightarrow> nat \<Rightarrow> datetime" where
  "utc y mo d h mi s us =
     \<lparr>year = y, month = mo, day = d, hour = h, minute = mi, second = s, microsecond = us\<rparr>"

definition is_leap :: "nat \<Rightarrow> bool" where
  "is_leap y = (y mod 4 = 0 \<and> (y mod 100 \<noteq> 0 \<or> y mod 400 = 0))"

definition days_in_month :: "nat \<Rightarrow> nat \<Rightarrow> nat" where
  "days_in_month y m =
     (if m = 2 then (if is_leap y then 29 else 28)
      else if m \<in> {4, 6, 9, 11} then 30 else 31)"

definition days_before_year :: "nat \<Rightarrow> int" where
  "days_before_year y =
     (let p = int y - 1 in p * 365 + p div 4 - p div 100 + p div 400)"

definition days_before_month :: "nat \<Rightarrow> nat \<Rightarrow> int" where
  "days_before_month y m = int (sum_list (map (days_in_month y) [1..<m]))"

definition toordinal :: "datetime \<Rightarrow> int" where
  "toordinal d =
     days_before_year (year d) + days_before_month (year d) (month d) + int (day d)"

definition valid_datetime :: "datetime \<Rightarrow> bool" where
  "valid_datetime d =
     (1 \<le> year d \<and> 1 \<le> month d \<and> month d \<le> 12 \<and>
      1 \<le> day d \<and> day d \<le> days_in_month (year d) (month d) \<and>
      hour d < 24 \<and> minute d < 60 \<and> second d < 60 \<and> microsecond d < 1000000)"

definition next_day :: "datetime \<Rightarrow> datetime" where
  "next_day d =
     (if day d < days_in_month (year d) (month d) then d\<lparr>day := day d + 1\<rparr>
      else if month d < 12 then d\<lparr>month := month d + 1, day := 1\<rparr>
      else d\<lparr>year := year d + 1, month := 1, day := 1\<rparr>)"

text \<open>\<open>d + timedelta(hours=k)\<close>, for a \<open>k\<close> of at most 24 (the source adds 1 or 2).\<close>

definition add_hours :: "datetime \<Rightarrow> nat \<Rightarrow> datetime" where
  "add_hours d k =
     (let h = hour d + k in
      if h < 24 then d\<lparr>hour := h\<rparr> else (next_day d)\<lparr>hour := h - 24\<rparr>)"

text \<open>Microseconds since the start of day number 0: the order of datetimes, and their
  difference.\<close>

definition to_us :: "datetime \<Rightarrow> int" where
  "to_us d =
     (((toordinal d * 24 + int (hour d)) * 60 + int (minute d)) * 60 + int (second d))
        * 1000000 + int (microsecond d)"

definition total_seconds :: "int \<Rightarrow> rat" where
  "total_seconds us = of_int us / 1000000"

section \<open>Scheduler: the next aligned boundary\<close>

text \<open>
  \<open>_seconds_until_next_even_utc_hour\<close>, with the clock reading \<open>now\<close> as its argument.
  \<open>next_even_utc_hour\<close> is the source's \<open>nxt\<close>. The result is the float \<open>max(1.0, delta)\<close>;
  \<open>delta\<close> is a whole number of microseconds, here an exact rational number of seconds.
\<close>

definition next_even_utc_hour :: "datetime \<Rightarrow> datetime" where
  "next_even_utc_hour now =
     (let base = now\<lparr>minute := 0, second := 0, microsecond := 0\<rparr> in
      if to_us now \<le> to_us base then
        (if hour base mod 2 = 0 then add_hours base 2 else add_hours base 1)
      else
        (if hour base mod 2 = 0 then add_hours base 2 else add_hours base 1))"

definition seconds_until_next_even_utc_hour :: "datetime \<Rightarrow> rat" where
  "seconds_until_next_even_utc_hour now =
     (let nxt = next_even_utc_hour now;
          delta = total_seconds (to_us nxt - to_us now)
      in max 1 delta)"

text \<open>The top of the hour \<open>now\<close> lies in, and one hour, in microseconds.\<close>

definition top_of_hour :: "datetime \<Rightarrow> int" where
  "top_of_hour now = to_us (now\<lparr>minute := 0, second := 0, microsecond := 0\<rparr>)"

definition hour_us :: int where
  "hour_us = 3600000000"

section \<open>SHA-256 and the hashed identifier\<close>

text \<open>
  \<open>hashlib.sha256\<close> is the standard SHA-256 (FIPS 180-4): the message is padded to a
  multiple of 64 bytes, each block is expanded to 64 words and compressed in 64 rounds,
  and the digest is the eight state words, written big-endian; \<open>hexdigest\<close> writes it in
  lower-case hexadecimal.
\<close>

type_synonym u32 = "32 word"
type_synonym byte = "8 word"

definition K256 :: "u32 list" where
  "K256 =
    [0x428A2F98, 0x71374491, 0xB5C0FBCF, 0xE9B5DBA5,
     0x3956C25B, 0x59F111F1, 0x923F82A4, 0xAB1C5ED5,
     0xD807AA98, 0x12835B01, 0x243185BE, 0x550C7DC3,
     0x72BE5D74, 0x80DEB1FE, 0x9BDC06A7, 0xC19BF174,
     0xE49B69C1, 0xEFBE4786, 0x0FC19DC6, 0x240CA1CC,
     0x2DE92C6F, 0x4A7484AA, 0x5CB0A9DC, 0x76F988DA,
     0x983E5152, 0xA831C66D, 0xB00327C8, 0xBF597FC7,
     0xC6E00BF3, 0xD5A79147, 0x06CA6351, 0x14292967,
     0x27B70A85, 0x2E1B2138, 0x4D2C6DFC, 0x53380D13,
     0x650A7354, 0x766A0ABB, 0x81C2C92E, 0x92722C85,
     0xA2BFE8A1, 0xA81A664B, 0xC24B8B70, 0xC76C51A3,
     0xD192E819, 0xD6990624, 0xF40E3585, 0x106AA070,
     0x19A4C116, 0x1E376C08, 0x2748774C, 0x34B0BCB5,
     0x391C0CB3, 0x4ED8AA4A, 0x5B9CCA4F, 0x682E6FF3,
     0x748F82EE, 0x78A5636F, 0x84C87814, 0x8CC70208,
     0x90BEFFFA, 0xA4506CEB, 0xBEF9A3F7, 0xC67178F2]"

definition H256 :: "u32 list" where
  "H256 = [0x6A09E667, 0xBB67AE85, 0x3C6EF372, 0xA54FF53A,
           0x510E527F, 0x9B05688C, 0x1F83D9AB, 0x5BE0CD19]"

definition Ch :: "u32 \<Rightarrow> u32 \<Rightarrow> u32 \<Rightarrow> u32" where
  "Ch x y z = (x AND y) XOR (NOT x AND z)"

definition Maj :: "u32 \<Rightarrow> u32 \<Rightarrow> u32 \<Rightarrow> u32" where
  "Maj x y z = (x AND y) XOR (x AND z) XOR (y AND z)"

definition bsig0 :: "u32 \<Rightarrow> u32" where
  "bsig0 x = word_rotr 2 x XOR word_rotr 13 x XOR word_rotr 22 x"

definition bsig1 :: "u32 \<Rightarrow> u32" where
  "bsig1 x = word_rotr 6 x XOR word_rotr 11 x XOR word_rotr 25 x"

definition ssig0 :: "u32 \<Rightarrow> u32" where
  "ssig0 x = word_rotr 7 x XOR word_rotr 18 x XOR drop_bit 3 x"

definition ssig1 :: "u32 \<Rightarrow> u32" where
  "ssig1 x = word_rotr 17 x XOR word_rotr 19 x XOR drop_bit 10 x"

text \<open>Padding: the byte \<open>0x80\<close>, zero bytes up to 56 modulo 64, and the length of the
  message in bits as 8 bytes, big-endian.\<close>

definition be64 :: "nat \<Rightarrow> byte list" where
  "be64 n = map (\<lambda>i. ucast (drop_bit (8 * (7 - i)) (of_nat n :: 64 word))) [0..<8]"

definition sha_pad :: "byte list \<Rightarrow> byte list" where
  "sha_pad msg =
     msg @ [0x80] @ replicate ((64 - (length msg + 9) mod 64) mod 64) 0
       @ be64 (8 * length msg)"

definition be32 :: "byte list \<Rightarrow> u32" where
  "be32 bs = foldl (\<lambda>acc b. push_bit 8 acc OR ucast b) 0 bs"

fun words_of :: "nat \<Rightarrow> byte list \<Rightarrow> u32 list" where
  "words_of 0 bs = []"
| "words_of (Suc n) bs = be32 (take 4 bs) # words_of n (drop 4 bs)"

text \<open>The message schedule: 16 words of the block, extended to 64.\<close>

fun extend :: "nat \<Rightarrow> u32 list \<Rightarrow> u32 list" where
  "extend 0 ws = ws"
| "extend (Suc n) ws =
     (let t = length ws in
      extend n (ws @ [ssig1 (ws ! (t - 2)) + ws ! (t - 7) + ssig0 (ws ! (t - 15))
                        + ws ! (t - 16)]))"

fun sha_round :: "u32 list \<Rightarrow> u32 \<times> u32 \<Rightarrow> u32 list" where
  "sha_round [a, b, c, d, e, f, g, h] (k, w) =
     (let t1 = h + bsig1 e + Ch e f g + k + w;
          t2 = bsig0 a + Maj a b c
      in [t1 + t2, a, b, c, d + t1, e, f, g])"
| "sha_round st (k, w) = st"

definition compress :: "u32 list \<Rightarrow> byte list \<Rightarrow> u32 list" where
  "compress st block =
     map2 (+) st (foldl sha_round st (zip K256 (extend 48 (words_of 16 block))))"

fun sha_blocks :: "nat \<Rightarrow> u32 list \<Rightarrow> byte list \<Rightarrow> u32 list" where
  "sha_blocks 0 st bs = st"
| "sha_blocks (Suc n) st bs = sha_blocks n (compress st (take 64 bs)) (drop 64 bs)"

definition sha256 :: "byte list \<Rightarrow> u32 list" where
  "sha256 msg = (let p = sha_pad msg in sha_blocks (length p div 64) H256 p)"

definition hex_digit :: "nat \<Rightarrow> char" where
  "hex_digit n = ''0123456789abcdef'' ! n"

definition hex_word :: "u32 \<Rightarrow> string" where
  "hex_word w = map (\<lambda>i. hex_digit (unat (drop_bit (4 * (7 - i)) w AND 15))) [0..<8]"

definition hexdigest :: "u32 list \<Rightarrow> string" where
  "hexdigest st = concat (map hex_word st)"

text \<open>\<open>raw.encode("utf-8")\<close>: the bytes of the string.\<close>

definition encode_utf8 :: "string \<Rightarrow> byte list" where
  "encode_utf8 s = map of_char s"

definition hash_id :: "string \<Rightarrow> string" where
  "hash_id raw = hexdigest (sha256 (encode_utf8 raw))"

section \<open>Exceptions, the world and the process state\<close>

text \<open>
  An exception is a value. \<open>is_Exception\<close> tells the classes an \<open>except Exception\<close>
  clause catches from those that derive from \<open>BaseException\<close> only
  (\<open>asyncio.CancelledError\<close> since Python 3.8, \<open>KeyboardInterrupt\<close>, \<open>SystemExit\<close>).
  Every function that can raise returns \<open>exn + 'a\<close>, with \<open>Inl\<close> the exception raised.
\<close>

datatype exn =
    OSError | UnicodeDecodeError | ValueError | URLError | HTTPError nat | RuntimeError
  | MemoryError | CancelledError | KeyboardInterrupt | SystemExit

definition is_Exception :: "exn \<Rightarrow> bool" where
  "is_Exception e = (e \<noteq> CancelledError \<and> e \<noteq> KeyboardInterrupt \<and> e \<noteq> SystemExit)"

datatype task = ImmediateSend | PeriodicLoop

datatype level = INFO | DEBUG

text \<open>What \<open>asyncio.get_event_loop()\<close> does in the calling thread: it raises, or it
  returns a loop that is not running, or one that is.\<close>

datatype event_loop = NoLoop exn | LoopIdle | LoopRunning

text \<open>
  The world is everything the code reads from outside the process at one moment: the
  environment, the clock, the random source of \<open>uuid.uuid4\<close> (its \<open>k\<close>-th value), the
  failures of the filesystem by path, the outcome of \<open>urlopen\<close> for a URL, a body and a
  timeout (an exception, or the status of the response), and the state of asyncio. \<open>default_state_file\<close> is the value
  of \<open>os.path.abspath(os.path.join(os.path.dirname(__file__), "..", ".telemetry_id"))\<close>.
  \<open>payload_fault\<close> and \<open>delay_fault\<close> are unexpected errors (such as \<open>MemoryError\<close>)
  raised while the payload is built and while the next delay is computed;
  \<open>await_fault\<close>, \<open>sleep_fault\<close> and \<open>backoff_fault\<close> are exceptions delivered to the
  coroutine while it is suspended in \<open>run_in_executor\<close>, in the sleep until the boundary
  and in the backoff sleep.
\<close>

record world =
  getenv :: environ
  default_state_file :: string
  utc_now :: datetime
  uuid4 :: "nat \<Rightarrow> string"
  read_fault :: "string \<Rightarrow> exn option"
  makedirs_fault :: "string \<Rightarrow> exn option"
  open_fault :: "string \<Rightarrow> exn option"
  write_fault :: "string \<Rightarrow> exn option"
  urlopen :: "string \<Rightarrow> string \<Rightarrow> rat \<Rightarrow> exn + nat"
  get_event_loop :: event_loop
  get_running_loop :: "exn option"
  ensure_future_fault :: "task \<Rightarrow> exn option"
  payload_fault :: "exn option"
  delay_fault :: "exn option"
  await_fault :: "exn option"
  sleep_fault :: "exn option"
  backoff_fault :: "exn option"

text \<open>
  The process state: the module's four global flags, the files on disk, the number of
  identifiers drawn so far, and what the process has done: the calls of \<open>_post_sync\<close>
  (\<open>posted\<close>: endpoint and body), the requests handed to \<open>urlopen\<close> (\<open>wire\<close>), the
  coroutines given to \<open>asyncio.ensure_future\<close> (\<open>tasks\<close>), the sleeps of the periodic
  loop in seconds (\<open>slept\<close>) and the log records (level and format string).
\<close>

record proc =
  HAS_SCHEDULED_SEND :: bool
  HAS_LOGGED_SCHEDULE :: bool
  HAS_LOGGED_SKIP :: bool
  HAS_LOGGED_NO_PROJECT :: bool
  files :: "string \<rightharpoonup> string"
  uuid_count :: nat
  posted :: "(string \<times> string) list"
  wire :: "(string \<times> string) list"
  tasks :: "task list"
  slept :: "rat list"
  logged :: "(level \<times> string) list"

text \<open>The state of a process at import: the flags are false and nothing has been done.\<close>

definition initial :: "(string \<rightharpoonup> string) \<Rightarrow> proc" where
  "initial fs =
     \<lparr>HAS_SCHEDULED_SEND = False, HAS_LOGGED_SCHEDULE = False, HAS_LOGGED_SKIP = False,
      HAS_LOGGED_NO_PROJECT = False, files = fs, uuid_count = 0, posted = [], wire = [],
      tasks = [], slept = [], logged = []\<rparr>"

definition log_event :: "level \<Rightarrow> string \<Rightarrow> proc \<Rightarrow> proc" where
  "log_event l m s = s\<lparr>logged := logged s @ [(l, m)]\<rparr>"

text \<open>\<open>except Exception\<close>: an exception of class \<open>Exception\<close> is replaced by the
  handler's result; any other propagates.\<close>

definition except_Exception :: "(exn + 'a) \<times> proc \<Rightarrow> (proc \<Rightarrow> (exn + 'a) \<times> proc)
    \<Rightarrow> (exn + 'a) \<times> proc" where
  "except_Exception r handler =
     (case r of
        (Inr v, s) \<Rightarrow> (Inr v, s)
      | (Inl e, s) \<Rightarrow> (if is_Exception e then handler s else (Inl e, s)))"

section \<open>Identity store\<close>

text \<open>\<open>os.path.join(a, b)\<close> for a relative \<open>b\<close>.\<close>

definition path_join :: "string \<Rightarrow> string \<Rightarrow> string" where
  "path_join a b = (if a = [] \<or> last a = CHR ''/'' then a @ b else a @ ''/'' @ b)"

definition get_state_file :: "world \<Rightarrow> proc \<Rightarrow> string \<times> proc" where
  "get_state_file w s =
     (let env_file = or_empty (getenv w ''TELEMETRY_STATE_FILE'') in
      if env_file \<noteq> [] then
        (env_file, log_event DEBUG ''telemetry state file (TELEMETRY_STATE_FILE) -> %s'' s)
      else
        let env_dir = or_empty (getenv w ''TELEMETRY_STATE_DIR'') in
        if env_dir \<noteq> [] then
          (path_join env_dir ''.telemetry_id'',
           log_event DEBUG ''telemetry state dir (TELEMETRY_STATE_DIR) -> %s'' s)
        else (default_state_file w, s))"

text \<open>\<open>str(uuid.uuid4())\<close>: the next value of the random source.\<close>

definition new_uuid :: "world \<Rightarrow> proc \<Rightarrow> string \<times> proc" where
  "new_uuid w s = (uuid4 w (uuid_count s), s\<lparr>uuid_count := uuid_count s + 1\<rparr>)"

text \<open>The second half of the \<open>try\<close> block of \<open>_ensure_instance_id\<close>: a new identifier,
  the parent directory (a failure there is logged and ignored), and the write. Opening
  for writing truncates the file, so a failed write leaves it empty.\<close>

definition create_id :: "world \<Rightarrow> proc \<Rightarrow> string \<Rightarrow> (exn + string) \<times> proc" where
  "create_id w s path =
     (let (new, s1) = new_uuid w s in
      case except_Exception
             (case makedirs_fault w path of Some e \<Rightarrow> (Inl e, s1) | None \<Rightarrow> (Inr (), s1))
             (\<lambda>s'. (Inr (), log_event DEBUG ''telemetry could not create parent dir for %s'' s'))
      of
        (Inl e, s2) \<Rightarrow> (Inl e, s2)
      | (Inr u, s2) \<Rightarrow>
          (case open_fault w path of
             Some e \<Rightarrow> (Inl e, s2)
           | None \<Rightarrow>
               (case write_fault w path of
                  Some e \<Rightarrow> (Inl e, s2\<lparr>files := (files s2)(path \<mapsto> [])\<rparr>)
                | None \<Rightarrow>
                    (Inr new,
                     log_event DEBUG ''telemetry created id file at %s''
                       (s2\<lparr>files := (files s2)(path \<mapsto> new)\<rparr>)))))"

text \<open>The \<open>try\<close> block of \<open>_ensure_instance_id\<close>.\<close>

definition ensure_try :: "world \<Rightarrow> proc \<Rightarrow> string \<Rightarrow> (exn + string) \<times> proc" where
  "ensure_try w s path =
     (case files s path of
        None \<Rightarrow> create_id w s path
      | Some content \<Rightarrow>
          (case read_fault w path of
             Some e \<Rightarrow> (Inl e, s)
           | None \<Rightarrow>
               (let raw = strip content in
                if raw \<noteq> [] then
                  (Inr raw, log_event DEBUG ''telemetry id file exists at %s'' s)
                else create_id w s path)))"

definition ensure_instance_id :: "world \<Rightarrow> proc \<Rightarrow> (exn + string) \<times> proc" where
  "ensure_instance_id w s =
     (let (path, s0) = get_state_file w s in
      except_Exception (ensure_try w s0 path)
        (\<lambda>s'. let (u, s'') = new_uuid w
                    (log_event DEBUG
                       ''telemetry failed to persist id file at %s; using ephemeral id'' s')
               in (Inr u, s'')))"

section \<open>Payload builder\<close>

datatype json = JStr string | JInt int

type_synonym payload = "(string \<times> json) list"

definition digit_char :: "nat \<Rightarrow> char" where
  "digit_char n = ''0123456789'' ! n"

text \<open>\<open>%Y-%m-%d\<close>: the year in four digits, the month and the day in two, for a year
  up to 9999.\<close>

definition strftime_ymd :: "datetime \<Rightarrow> string" where
  "strftime_ymd d =
     [digit_char (year d div 1000 mod 10), digit_char (year d div 100 mod 10),
      digit_char (year d div 10 mod 10), digit_char (year d mod 10), CHR ''-'',
      digit_char (month d div 10 mod 10), digit_char (month d mod 10), CHR ''-'',
      digit_char (day d div 10 mod 10), digit_char (day d mod 10)]"

definition make_payload :: "world \<Rightarrow> proc \<Rightarrow> (exn + payload) \<times> proc" where
  "make_payload w s =
     (case ensure_instance_id w s of
        (Inl e, s1) \<Rightarrow> (Inl e, s1)
      | (Inr rid, s1) \<Rightarrow>
          (case payload_fault w of
             Some e \<Rightarrow> (Inl e, s1)
           | None \<Rightarrow>
               (Inr [(''id'', JStr (hash_id rid)),
                     (''date'', JStr (strftime_ymd (utc_now w))),
                     (''projectname'', JStr get_project_name),
                     (''project'', JStr get_project_name),
                     (''count'', JInt 1)], s1)))"

text \<open>\<open>json.dumps\<close> of a payload, with the item and key separators given. A string is
  quoted, with the quote, the backslash and the control characters escaped; characters
  beyond ASCII, which \<open>json.dumps\<close> writes as \<open>\u\<close> escapes, do not occur in a payload.\<close>

fun decimal :: "nat \<Rightarrow> string" where
  "decimal n = (if n < 10 then [digit_char n] else decimal (n div 10) @ [digit_char (n mod 10)])"

definition json_escape :: "char \<Rightarrow> string" where
  "json_escape c =
     (if c = CHR 0x22 then [CHR 0x5C, CHR 0x22]
      else if c = CHR 0x5C then [CHR 0x5C, CHR 0x5C]
      else if c = CHR 0x0A then [CHR 0x5C, CHR ''n'']
      else if c = CHR 0x0D then [CHR 0x5C, CHR ''r'']
      else if c = CHR 0x09 then [CHR 0x5C, CHR ''t'']
      else if c = CHR 0x08 then [CHR 0x5C, CHR ''b'']
      else if c = CHR 0x0C then [CHR 0x5C, CHR ''f'']
      else if (of_char c :: nat) < 32 then
        [CHR 0x5C, CHR ''u'', CHR ''0'', CHR ''0'',
         hex_digit (of_char c div 16), hex_digit (of_char c mod 16)]
      else [c])"

definition json_string :: "string \<Rightarrow> string" where
  "json_string s = [CHR 0x22] @ concat (map json_escape s) @ [CHR 0x22]"

definition json_value :: "json \<Rightarrow> string" where
  "json_value v =
     (case v of
        JStr s \<Rightarrow> json_string s
      | JInt i \<Rightarrow> (if i < 0 then CHR ''-'' # decimal (nat (- i)) else decimal (nat i)))"

fun join :: "string \<Rightarrow> string list \<Rightarrow> string" where
  "join sep [] = []"
| "join sep [x] = x"
| "join sep (x # y # ys) = x @ sep @ join sep (y # ys)"

definition json_dumps :: "string \<Rightarrow> string \<Rightarrow> payload \<Rightarrow> string" where
  "json_dumps item_sep key_sep p =
     ''{'' @ join item_sep (map (\<lambda>(k, v). json_string k @ key_sep @ json_value v) p) @ ''}''"

section \<open>Transport\<close>

text \<open>
  \<open>urllib.request.Request(url, ...)\<close> parses the URL when it is constructed and raises
  \<open>ValueError\<close> (unknown url type) for one with no scheme: the URL is trimmed, a pair
  of angle brackets around it and a prefix \<open>URL:\<close> are removed, the fragment after the
  last \<open>#\<close> is cut off, and what remains must start with one or more characters other
  than \<open>/\<close> and \<open>:\<close>, followed by a colon.
\<close>

definition unwrap :: "string \<Rightarrow> string" where
  "unwrap url =
     (let u = strip url;
          u1 = (if u \<noteq> [] \<and> hd u = CHR ''<'' \<and> last u = CHR ''>''
                then strip (butlast (tl u)) else u)
      in if take 4 u1 = ''URL:'' then strip (drop 4 u1) else u1)"

definition splittag :: "string \<Rightarrow> string" where
  "splittag url =
     (if CHR ''#'' \<in> set url
      then rev (tl (dropWhile (\<lambda>c. c \<noteq> CHR ''#'') (rev url)))
      else url)"

definition splittype :: "string \<Rightarrow> string option" where
  "splittype url =
     (let scheme = takeWhile (\<lambda>c. c \<noteq> CHR ''/'' \<and> c \<noteq> CHR '':'') url;
          rest = dropWhile (\<lambda>c. c \<noteq> CHR ''/'' \<and> c \<noteq> CHR '':'') url
      in if scheme \<noteq> [] \<and> take 1 rest = '':'' then Some (lower scheme) else None)"

definition Request :: "string \<Rightarrow> exn + string" where
  "Request url =
     (let full_url = splittag (unwrap url) in
      case splittype full_url of
        None \<Rightarrow> Inl ValueError
      | Some t \<Rightarrow> Inr full_url)"

definition is_URLError :: "exn \<Rightarrow> bool" where
  "is_URLError e = (case e of URLError \<Rightarrow> True | HTTPError code \<Rightarrow> True | _ \<Rightarrow> False)"

text \<open>\<open>_post_sync(url, data, timeout)\<close>. The call is recorded in \<open>posted\<close>, the request
  handed to \<open>urlopen\<close> in \<open>wire\<close>. The request is constructed before the \<open>try\<close>
  block. An HTTP error status makes \<open>urlopen\<close> raise \<open>HTTPError\<close>, a subclass of
  \<open>URLError\<close>.\<close>

definition post_sync ::
    "world \<Rightarrow> proc \<Rightarrow> string \<Rightarrow> string \<Rightarrow> rat \<Rightarrow> (exn + unit) \<times> proc" where
  "post_sync w s url data timeout =
     (let s1 = s\<lparr>posted := posted s @ [(url, data)]\<rparr> in
      case Request url of
        Inl e \<Rightarrow> (Inl e, s1)
      | Inr req \<Rightarrow>
          (let s2 = s1\<lparr>wire := wire s1 @ [(url, data)]\<rparr> in
           case urlopen w url data timeout of
             Inr status \<Rightarrow> (Inr (), s2)
           | Inl e \<Rightarrow>
               (if is_URLError e then (Inr (), s2)
                else if is_Exception e then (Inr (), s2)
                else (Inl e, s2))))"

section \<open>Scheduler\<close>

definition log_once_skip :: "proc \<Rightarrow> proc" where
  "log_once_skip s =
     (if \<not> HAS_LOGGED_SKIP s then
        log_event INFO ''[telemetry] skipped (endpoint_configured=%s, opted_out=%s)''
          (s\<lparr>HAS_LOGGED_SKIP := True\<rparr>)
      else log_event DEBUG ''telemetry skipped (endpoint=%s, opted_out=%s)'' s)"

definition log_once_no_project :: "proc \<Rightarrow> proc" where
  "log_once_no_project s =
     (if \<not> HAS_LOGGED_NO_PROJECT s then
        log_event INFO ''[telemetry] skipped (missing PROJECT_NAME)''
          (s\<lparr>HAS_LOGGED_NO_PROJECT := True\<rparr>)
      else log_event DEBUG ''telemetry skipped (missing PROJECT_NAME)'' s)"

text \<open>The \<open>try\<close> block of \<open>maybe_send_telemetry_async\<close>: the running loop, and the
  post in its executor, awaited.\<close>

definition send_try :: "world \<Rightarrow> proc \<Rightarrow> string \<Rightarrow> string \<Rightarrow> (exn + unit) \<times> proc" where
  "send_try w s endpoint data =
     (case get_running_loop w of
        Some e \<Rightarrow> (Inl e, s)
      | None \<Rightarrow>
          (let s1 = log_event DEBUG ''telemetry POST -> %s (async, %d bytes)'' s in
           case post_sync w s1 endpoint data 2 of
             (Inl e, s2) \<Rightarrow> (Inl e, s2)
           | (Inr u, s2) \<Rightarrow>
               (case await_fault w of Some e \<Rightarrow> (Inl e, s2) | None \<Rightarrow> (Inr (), s2))))"

definition maybe_send_telemetry_async :: "world \<Rightarrow> proc \<Rightarrow> (exn + unit) \<times> proc" where
  "maybe_send_telemetry_async w s =
     (let endpoint = get_endpoint (getenv w) in
      if endpoint = [] \<or> env_opt_out (getenv w) then (Inr (), log_once_skip s)
      else
        let project = get_project_name in
        if project = [] then (Inr (), log_once_no_project s)
        else
          (case make_payload w s of
             (Inl e, s1) \<Rightarrow> (Inl e, s1)
           | (Inr p, s1) \<Rightarrow>
               (let data = json_dumps '','' '':'' p in
                except_Exception (send_try w s1 endpoint data) (\<lambda>s'. (Inr (), s')))))"

text \<open>
  The periodic loop runs one iteration for each pair of worlds it is given: the world
  when the delay is computed and the sleep starts, and the world at the wake. The body
  of the \<open>try\<close> block is \<open>tick\<close>. When the worlds run out the loop is still running.
\<close>

datatype loop_end = Returned | Escaped exn | Running

definition tick :: "world \<times> world \<Rightarrow> proc \<Rightarrow> (exn + unit) \<times> proc" where
  "tick ww s =
     (case delay_fault (fst ww) of
        Some e \<Rightarrow> (Inl e, s)
      | None \<Rightarrow>
          (let sleep_s = seconds_until_next_even_utc_hour (utc_now (fst ww));
               s1 = s\<lparr>slept := slept s @ [sleep_s]\<rparr>
           in case sleep_fault (fst ww) of
                Some e \<Rightarrow> (Inl e, s1)
              | None \<Rightarrow>
                  (if env_opt_out (getenv (snd ww)) then (Inr (), s1)
                   else maybe_send_telemetry_async (snd ww) s1)))"

fun periodic_ping_loop :: "(world \<times> world) list \<Rightarrow> proc \<Rightarrow> loop_end \<times> proc" where
  "periodic_ping_loop [] s = (Running, s)"
| "periodic_ping_loop (ww # rest) s =
     (case tick ww s of
        (Inr u, s1) \<Rightarrow> periodic_ping_loop rest s1
      | (Inl e, s1) \<Rightarrow>
          (if e = CancelledError then (Returned, s1)
           else if is_Exception e then
             (let s2 = s1\<lparr>slept := slept s1 @ [60]\<rparr> in
              case backoff_fault (snd ww) of
                None \<Rightarrow> periodic_ping_loop rest s2
              | Some e' \<Rightarrow> (if is_Exception e' then (Returned, s2) else (Escaped e', s2)))
           else (Escaped e, s1)))"

text \<open>\<open>asyncio.ensure_future(coro)\<close>: the coroutine becomes a task of the loop.\<close>

definition ensure_future :: "world \<Rightarrow> proc \<Rightarrow> task \<Rightarrow> (exn + unit) \<times> proc" where
  "ensure_future w s t =
     (case ensure_future_fault w t of
        Some e \<Rightarrow> (Inl e, s)
      | None \<Rightarrow> (Inr (), s\<lparr>tasks := tasks s @ [t]\<rparr>))"

definition log_once_schedule :: "proc \<Rightarrow> proc" where
  "log_once_schedule s =
     (if \<not> HAS_LOGGED_SCHEDULE s then
        log_event INFO
          ''[telemetry] scheduling immediate send and 2h periodic loop (UTC aligned)''
          (s\<lparr>HAS_LOGGED_SCHEDULE := True\<rparr>)
      else log_event DEBUG ''telemetry scheduling immediate send + periodic loop'' s)"

text \<open>The first \<open>try\<close> block of \<open>maybe_send_telemetry_background\<close>.\<close>

definition init_state_file :: "world \<Rightarrow> proc \<Rightarrow> (exn + unit) \<times> proc" where
  "init_state_file w s =
     (let (path, s1) = get_state_file w s in
      case ensure_instance_id w s1 of
        (Inl e, s2) \<Rightarrow> (Inl e, s2)
      | (Inr rid, s2) \<Rightarrow>
          (Inr (), log_event INFO ''[telemetry] initialized state file at %s'' s2))"

text \<open>The second \<open>try\<close> block: the event loop, and when it runs, the two tasks.\<close>

definition schedule_try :: "world \<Rightarrow> proc \<Rightarrow> (exn + unit) \<times> proc" where
  "schedule_try w s =
     (case get_event_loop w of
        NoLoop e \<Rightarrow> (Inl e, s)
      | LoopIdle \<Rightarrow> (Inr (), s)
      | LoopRunning \<Rightarrow>
          (let s1 = log_once_schedule s in
           case ensure_future w s1 ImmediateSend of
             (Inl e, s2) \<Rightarrow> (Inl e, s2)
           | (Inr u, s2) \<Rightarrow>
               except_Exception (ensure_future w s2 PeriodicLoop) (\<lambda>s'. (Inr (), s'))))"

text \<open>The handler of the second \<open>try\<close> block: a synchronous post, built with the
  default separators of \<open>json.dumps\<close>.\<close>

definition fallback_post :: "world \<Rightarrow> proc \<Rightarrow> (exn + unit) \<times> proc" where
  "fallback_post w s =
     except_Exception
       (case make_payload w s of
          (Inl e, s1) \<Rightarrow> (Inl e, s1)
        | (Inr p, s1) \<Rightarrow>
            post_sync w s1 (get_endpoint (getenv w)) (json_dumps '', '' '': '' p) 2)
       (\<lambda>s'. (Inr (), s'))"

definition maybe_send_telemetry_background :: "world \<Rightarrow> proc \<Rightarrow> (exn + unit) \<times> proc" where
  "maybe_send_telemetry_background w s =
     (if HAS_SCHEDULED_SEND s then (Inr (), s)
      else
        let s0 = s\<lparr>HAS_SCHEDULED_SEND := True\<rparr> in
        case except_Exception (init_state_file w s0) (\<lambda>s'. (Inr (), s')) of
          (Inl e, s1) \<Rightarrow> (Inl e, s1)
        | (Inr u, s1) \<Rightarrow> except_Exception (schedule_try w s1) (fallback_post w))"

text \<open>A process calls the entry point any number of times, each time in some world.\<close>

fun background_calls :: "world list \<Rightarrow> proc \<Rightarrow> proc" where
  "background_calls [] s = s"
| "background_calls (w # ws) s =
     background_calls ws (snd (maybe_send_telemetry_background w s))"

section \<open>Auxiliary notions for the statements\<close>

text \<open>A world in which nothing fails: an empty environment, a running event loop, a
  server that answers 200.\<close>

definition quiet_world :: world where
  "quiet_world =
     \<lparr>getenv = Map.empty, default_state_file = ''/srv/app/.telemetry_id'',
      utc_now = utc 2024 1 1 1 30 0 0, uuid4 = (\<lambda>k. ''uuid-'' @ decimal k),
      read_fault = (\<lambda>p. None), makedirs_fault = (\<lambda>p. None), open_fault = (\<lambda>p. None),
      write_fault = (\<lambda>p. None), urlopen = (\<lambda>url data timeout. Inr 200),
      get_event_loop = LoopRunning, get_running_loop = None,
      ensure_future_fault = (\<lambda>t. None), payload_fault = None, delay_fault = None,
      await_fault = None, sleep_fault = None, backoff_fault = None\<rparr>"

text \<open>\<open>s'\<close> differs from \<open>s\<close> at most in the files, the identifiers drawn and the log.\<close>

definition identity_only :: "proc \<Rightarrow> proc \<Rightarrow> bool" where
  "identity_only s s' =
     (HAS_SCHEDULED_SEND s' = HAS_SCHEDULED_SEND s \<and>
      HAS_LOGGED_SCHEDULE s' = HAS_LOGGED_SCHEDULE s \<and>
      HAS_LOGGED_SKIP s' = HAS_LOGGED_SKIP s \<and>
      HAS_LOGGED_NO_PROJECT s' = HAS_LOGGED_NO_PROJECT s \<and>
      posted s' = posted s \<and> wire s' = wire s \<and> tasks s' = tasks s \<and> slept s' = slept s)"

text \<open>The failures of the filesystem are errors: exceptions of class \<open>Exception\<close>, as
  \<open>OSError\<close> and \<open>UnicodeDecodeError\<close> are.\<close>

definition fs_faults_are_errors :: "world \<Rightarrow> bool" where
  "fs_faults_are_errors w =
     (\<forall>p e. (read_fault w p = Some e \<or> makedirs_fault w p = Some e \<or>
             open_fault w p = Some e \<or> write_fault w p = Some e) \<longrightarrow> is_Exception e)"

text \<open>Reading a date back: the value of a decimal digit and of a string of digits.\<close>

definition digit_val :: "char \<Rightarrow> nat" where
  "digit_val c = of_char c - 48"

definition number_of :: "string \<Rightarrow> nat" where
  "number_of ds = foldl (\<lambda>acc c. 10 * acc + digit_val c) 0 ds"

definition hex_chars :: "char set" where
  "hex_chars = set ''0123456789abcdef''"

definition digit_chars :: "char set" where
  "digit_chars = set ''0123456789''"

text \<open>\<open>s'\<close> has the start guard and the tasks of \<open>s\<close>.\<close>

definition no_scheduling :: "proc \<Rightarrow> proc \<Rightarrow> bool" where
  "no_scheduling s s' =
     (HAS_SCHEDULED_SEND s' = HAS_SCHEDULED_SEND s \<and> tasks s' = tasks s)"

section \<open>Lemmas on the policy resolver\<close>

lemma or_empty_None [simp]: "or_empty None = []"
  by (simp add: or_empty_def)

lemma or_empty_Some [simp]: "or_empty (Some s) = s"
  by (simp add: or_empty_def)

lemma strip_Nil [simp]: "strip [] = []"
  by (simp add: strip_def)

lemma lower_Nil [simp]: "lower [] = []"
  by (simp add: lower_def)

lemma truthy_falsy_disjoint: "set truthy_tokens \<inter> set falsy_tokens = {}"
  by (simp add: truthy_tokens_def falsy_tokens_def)

lemma env_truthy_None: "\<not> env_truthy None"
  by (simp add: env_truthy_def truthy_tokens_def)

lemma env_falsy_None: "\<not> env_falsy None"
  by (simp add: env_falsy_def falsy_tokens_def)

lemma env_truthy_iff:
  "env_truthy v \<longleftrightarrow> (\<exists>s. v = Some s \<and> lower (strip s) \<in> set truthy_tokens)"
proof (cases v)
  case None
  then show ?thesis using env_truthy_None by simp
next
  case (Some s)
  then show ?thesis by (simp add: env_truthy_def)
qed

lemma env_falsy_iff:
  "env_falsy v \<longleftrightarrow> (\<exists>s. v = Some s \<and> lower (strip s) \<in> set falsy_tokens)"
proof (cases v)
  case None
  then show ?thesis using env_falsy_None by simp
next
  case (Some s)
  then show ?thesis by (simp add: env_falsy_def)
qed

lemma not_truthy_and_falsy: "\<not> (env_truthy v \<and> env_falsy v)"
  using truthy_falsy_disjoint by (auto simp: env_truthy_def env_falsy_def Let_def)

lemma env_opt_out_iff:
  "env_opt_out env \<longleftrightarrow>
     env_truthy (env OPTOUT_ENV_VAR) \<or> env_truthy (env ''TELEMETRY_OPTOUT'') \<or>
     (\<exists>tel. env ''TELEMETRY'' = Some tel \<and> env_falsy (Some tel))"
  by (auto simp: env_opt_out_def Let_def)

lemma get_endpoint_nonempty: "get_endpoint env \<noteq> []"
  by (simp add: get_endpoint_def DEFAULT_ENDPOINT_def split: option.split)

section \<open>Lemmas on the calendar\<close>

lemma div_step:
  fixes n k :: int
  assumes k: "0 < k"
  shows "n div k = (n - 1) div k + (if n mod k = 0 then 1 else 0)"
proof (cases "n mod k = 0")
  case True
  have "n = k * (n div k) + n mod k" by simp
  with True have "n - 1 = k * (n div k - 1) + (k - 1)"
    by (simp add: algebra_simps)
  then have "(n - 1) div k = n div k - 1"
    using k by (intro int_div_pos_eq [where r = "k - 1"]) simp_all
  with True show ?thesis by simp
next
  case False
  have e: "n = k * (n div k) + n mod k" by simp
  have "0 \<le> n mod k" "n mod k < k" using k by simp_all
  with False have r: "0 \<le> n mod k - 1" "n mod k - 1 < k" by simp_all
  from e have "n - 1 = k * (n div k) + (n mod k - 1)" by simp
  then have "(n - 1) div k = n div k"
    using r by (intro int_div_pos_eq [where r = "n mod k - 1"]) simp_all
  with False show ?thesis by simp
qed

lemma mod_int_iff: "(int y mod int k = 0) = (y mod k = 0)"
  by (metis of_nat_eq_0_iff zmod_int)

lemma div_step_nat:
  "0 < k \<Longrightarrow> int y div int k = (int y - 1) div int k + (if y mod k = 0 then 1 else 0)"
  unfolding mod_int_iff [of y k, symmetric] by (rule div_step) simp

lemma leap_bits:
  "(P400 \<longrightarrow> P100) \<Longrightarrow> (P100 \<longrightarrow> P4) \<Longrightarrow>
   (if P4 then 1 else 0::int) - (if P100 then 1 else 0) + (if P400 then 1 else 0)
     = (if P4 \<and> (\<not> P100 \<or> P400) then 1 else 0)"
  by (cases P4; cases P100; cases P400) simp_all

lemma year_sum:
  fixes p :: int
  assumes "A' = A + a" "B' = B + b" "C' = C + c"
  shows "(p + 1) * 365 + A' - B' + C' = (p * 365 + A - B + C) + (365 + (a - b + c))"
  using assms by (simp add: algebra_simps)

lemma days_before_year_Suc:
  "days_before_year (Suc y) = days_before_year y + (if is_leap y then 366 else 365)"
proof -
  have a: "int y div int 4 = (int y - 1) div int 4 + (if y mod 4 = 0 then 1 else 0)"
    by (rule div_step_nat) simp
  have b: "int y div int 100 = (int y - 1) div int 100 + (if y mod 100 = 0 then 1 else 0)"
    by (rule div_step_nat) simp
  have c: "int y div int 400 = (int y - 1) div int 400 + (if y mod 400 = 0 then 1 else 0)"
    by (rule div_step_nat) simp
  have "(100::nat) dvd 400" "(4::nat) dvd 100" by simp_all
  then have d: "y mod 400 = 0 \<longrightarrow> y mod 100 = 0" "y mod 100 = 0 \<longrightarrow> y mod 4 = 0"
    unfolding mod_eq_0_iff_dvd by (blast intro: dvd_trans)+
  have e: "(if is_leap y then 366 else 365)
       = 365 + ((if y mod 4 = 0 then 1 else 0::int) - (if y mod 100 = 0 then 1 else 0)
            + (if y mod 400 = 0 then 1 else 0))"
    unfolding leap_bits [OF d] is_leap_def by (rule if_split [THEN iffD2]) simp
  have f: "days_before_year (Suc y)
     = (int y - 1 + 1) * 365 + int y div int 4 - int y div int 100 + int y div int 400"
    by (simp add: days_before_year_def Let_def)
  have g: "days_before_year y
     = (int y - 1) * 365 + (int y - 1) div int 4 - (int y - 1) div int 100
        + (int y - 1) div int 400"
    by (simp add: days_before_year_def Let_def)
  show ?thesis
    unfolding e f g by (rule year_sum [OF a b c])
qed

lemma days_before_month_Suc:
  "1 \<le> m \<Longrightarrow> days_before_month y (Suc m) = days_before_month y m + int (days_in_month y m)"
  by (simp add: days_before_month_def)

lemma days_before_month_1: "days_before_month y (Suc 0) = 0"
  by (simp add: days_before_month_def)

lemma year_length:
  "days_before_month y 12 + 31 = (if is_leap y then 366 else 365)"
proof -
  have "[1..<12] = [1,2,3,4,5,6,7,8,9,10,11::nat]"
    by (simp add: upt_rec)
  then show ?thesis
    by (simp add: days_before_month_def days_in_month_def)
qed

lemma toordinal_next_day:
  assumes "valid_datetime d"
  shows "toordinal (next_day d) = toordinal d + 1"
proof -
  from assms have m: "1 \<le> month d" "month d \<le> 12"
    and dd: "day d \<le> days_in_month (year d) (month d)"
    by (simp_all add: valid_datetime_def)
  consider (a) "day d < days_in_month (year d) (month d)"
    | (b) "day d = days_in_month (year d) (month d)" "month d < 12"
    | (c) "day d = days_in_month (year d) (month d)" "month d = 12"
    using m dd by linarith
  then show ?thesis
  proof cases
    case a
    then show ?thesis by (simp add: next_day_def toordinal_def)
  next
    case b
    then show ?thesis
      using m days_before_month_Suc [of "month d" "year d"]
      by (simp add: next_day_def toordinal_def)
  next
    case c
    have "int (day d) = 31" using c by (simp add: days_in_month_def)
    then show ?thesis
      using c year_length [of "year d"] days_before_year_Suc [of "year d"]
      by (simp add: next_day_def toordinal_def days_before_month_1)
  qed
qed

lemma to_us_add_hours:
  assumes "valid_datetime d" "k \<le> 24"
  shows "to_us (add_hours d k) = to_us d + int k * hour_us"
proof (cases "hour d + k < 24")
  case True
  then show ?thesis
    by (simp add: add_hours_def to_us_def toordinal_def hour_us_def algebra_simps)
next
  case False
  have "toordinal ((next_day d)\<lparr>hour := hour d + k - 24\<rparr>) = toordinal d + 1"
    using toordinal_next_day [OF assms(1)] by (simp add: toordinal_def)
  moreover have "minute (next_day d) = minute d" "second (next_day d) = second d"
    "microsecond (next_day d) = microsecond d"
    by (simp_all add: next_day_def)
  moreover have "int (hour d + k - 24) = int (hour d) + int k - 24"
    using False by simp
  ultimately show ?thesis
    using False by (simp add: add_hours_def to_us_def hour_us_def algebra_simps)
qed

lemma valid_base:
  "valid_datetime now \<Longrightarrow> valid_datetime (now\<lparr>minute := 0, second := 0, microsecond := 0\<rparr>)"
  by (simp add: valid_datetime_def)

lemma next_even_utc_hour_cases:
  "next_even_utc_hour now =
     add_hours (now\<lparr>minute := 0, second := 0, microsecond := 0\<rparr>)
       (if hour now mod 2 = 0 then 2 else 1)"
  by (simp add: next_even_utc_hour_def Let_def)

lemma to_us_next_even_utc_hour:
  assumes "valid_datetime now"
  shows "to_us (next_even_utc_hour now)
           = top_of_hour now + (if hour now mod 2 = 0 then 2 else 1) * hour_us"
  unfolding next_even_utc_hour_cases top_of_hour_def
  using to_us_add_hours [OF valid_base [OF assms], of "if hour now mod 2 = 0 then 2 else 1"]
  by (simp split: if_splits)

lemma top_of_hour_le:
  "top_of_hour now \<le> to_us now"
  by (simp add: top_of_hour_def to_us_def toordinal_def)

lemma to_us_less_next_hour:
  assumes "valid_datetime now"
  shows "to_us now < top_of_hour now + hour_us"
proof -
  from assms have "int (minute now) \<le> 59" "int (second now) \<le> 59"
    "int (microsecond now) \<le> 999999"
    by (simp_all add: valid_datetime_def)
  then show ?thesis
    by (simp add: top_of_hour_def to_us_def toordinal_def hour_us_def)
qed

lemma next_even_utc_hour_aligned:
  assumes "valid_datetime now"
  shows "hour (next_even_utc_hour now) mod 2 = 0 \<and> minute (next_even_utc_hour now) = 0
     \<and> second (next_even_utc_hour now) = 0 \<and> microsecond (next_even_utc_hour now) = 0"
proof -
  have h: "hour now < 24" using assms by (simp add: valid_datetime_def)
  have f: "minute (next_day d) = minute d" "second (next_day d) = second d"
    "microsecond (next_day d) = microsecond d" for d
    by (simp_all add: next_day_def)
  show ?thesis
  proof (cases "hour now mod 2 = 0")
    case True
    then have "(hour now + 2) mod 2 = 0" "(hour now + 2 - 24) mod 2 = 0 \<or> hour now + 2 < 24"
      using h by presburger+
    then show ?thesis
      using True by (auto simp: next_even_utc_hour_cases add_hours_def Let_def f)
  next
    case False
    then have "(hour now + 1) mod 2 = 0" "(hour now + 1 - 24) mod 2 = 0 \<or> hour now + 1 < 24"
      using h by presburger+
    then show ?thesis
      using False by (auto simp: next_even_utc_hour_cases add_hours_def Let_def f)
  qed
qed

lemma seconds_until_eq:
  "seconds_until_next_even_utc_hour now
     = max 1 (total_seconds (to_us (next_even_utc_hour now) - to_us now))"
  by (simp add: seconds_until_next_even_utc_hour_def Let_def)

section \<open>Lemmas on the identity store\<close>

lemma identity_only_refl [simp]: "identity_only s s"
  by (simp add: identity_only_def)

lemma identity_only_trans: "identity_only s s1 \<Longrightarrow> identity_only s1 s2 \<Longrightarrow> identity_only s s2"
  by (simp add: identity_only_def)

lemma identity_only_log [simp]: "identity_only s (log_event l m s')  = identity_only s s'"
  by (simp add: identity_only_def log_event_def)

lemma identity_only_files [simp]: "identity_only s (s'\<lparr>files := f\<rparr>) = identity_only s s'"
  by (simp add: identity_only_def)

lemma identity_only_uuid_count [simp]:
  "identity_only s (s'\<lparr>uuid_count := n\<rparr>) = identity_only s s'"
  by (simp add: identity_only_def)

lemma get_state_file_frame: "identity_only s (snd (get_state_file w s))"
  by (simp add: get_state_file_def Let_def)

lemma get_state_file_path: "fst (get_state_file w s') = fst (get_state_file w s)"
  by (simp add: get_state_file_def Let_def)

lemma get_state_file_files [simp]:
  "files (snd (get_state_file w s)) = files s"
  "uuid_count (snd (get_state_file w s)) = uuid_count s"
  by (simp_all add: get_state_file_def Let_def log_event_def)

lemma create_id_frame: "identity_only s (snd (create_id w s path))"
  by (simp add: create_id_def new_uuid_def except_Exception_def Let_def
      split: option.split prod.split sum.split)

lemma ensure_try_frame: "identity_only s (snd (ensure_try w s path))"
  by (simp add: ensure_try_def Let_def create_id_frame split: option.split)

lemma except_Exception_Inr [simp]:
  "except_Exception (Inr v, s) h = (Inr v, s)"
  by (simp add: except_Exception_def)

lemma except_Exception_Inl [simp]:
  "except_Exception (Inl e, s) h = (if is_Exception e then h s else (Inl e, s))"
  by (simp add: except_Exception_def)

lemma ensure_instance_id_frame: "identity_only s (snd (ensure_instance_id w s))"
proof -
  obtain path s0 where g: "get_state_file w s = (path, s0)"
    by (cases "get_state_file w s")
  then have a: "identity_only s s0"
    using get_state_file_frame [of s w] by simp
  obtain r s1 where t: "ensure_try w s0 path = (r, s1)"
    by (cases "ensure_try w s0 path")
  then have "identity_only s0 s1"
    using ensure_try_frame [of s0 w path] by simp
  with a have b: "identity_only s s1"
    by (rule identity_only_trans)
  show ?thesis
    using b by (cases r) (simp_all add: ensure_instance_id_def g t new_uuid_def)
qed

lemma make_payload_frame: "identity_only s (snd (make_payload w s))"
  using ensure_instance_id_frame [of s w]
  by (auto simp: make_payload_def split: prod.split sum.split option.split)

lemma ensure_instance_id_unfold:
  "ensure_instance_id w s =
     except_Exception (ensure_try w (snd (get_state_file w s)) (fst (get_state_file w s)))
       (\<lambda>s'. (Inr (uuid4 w (uuid_count s')),
               (log_event DEBUG
                  ''telemetry failed to persist id file at %s; using ephemeral id'' s')
                 \<lparr>uuid_count := uuid_count s' + 1\<rparr>))"
  by (simp add: ensure_instance_id_def new_uuid_def split_beta log_event_def)

lemma create_id_ok:
  assumes "open_fault w path = None" "write_fault w path = None"
    and "\<And>e. makedirs_fault w path = Some e \<Longrightarrow> is_Exception e"
  shows "fst (create_id w s path) = Inr (uuid4 w (uuid_count s))"
    and "files (snd (create_id w s path)) = (files s)(path \<mapsto> uuid4 w (uuid_count s))"
    and "uuid_count (snd (create_id w s path)) = uuid_count s + 1"
  using assms
  by (cases "makedirs_fault w path";
      simp add: create_id_def new_uuid_def log_event_def)+

lemma create_id_open_fails:
  assumes "open_fault w path = Some e"
    and "\<And>e. makedirs_fault w path = Some e \<Longrightarrow> is_Exception e"
  shows "fst (create_id w s path) = Inl e"
    and "files (snd (create_id w s path)) = files s"
    and "uuid_count (snd (create_id w s path)) = uuid_count s + 1"
  using assms
  by (cases "makedirs_fault w path";
      simp add: create_id_def new_uuid_def log_event_def)+

lemma create_id_write_fails:
  assumes "open_fault w path = None" "write_fault w path = Some e"
    and "\<And>e. makedirs_fault w path = Some e \<Longrightarrow> is_Exception e"
  shows "fst (create_id w s path) = Inl e"
    and "files (snd (create_id w s path)) = (files s)(path \<mapsto> [])"
    and "uuid_count (snd (create_id w s path)) = uuid_count s + 1"
  using assms
  by (cases "makedirs_fault w path";
      simp add: create_id_def new_uuid_def log_event_def)+

lemma create_id_raises:
  assumes "fs_faults_are_errors w" "fst (create_id w s path) = Inl e"
  shows "is_Exception e"
  using assms unfolding fs_faults_are_errors_def
  by (cases "makedirs_fault w path"; cases "open_fault w path"; cases "write_fault w path")
     (auto simp: create_id_def new_uuid_def split: if_splits)

lemma ensure_try_raises:
  assumes "fs_faults_are_errors w" "fst (ensure_try w s path) = Inl e"
  shows "is_Exception e"
proof (cases "files s path")
  case None
  then show ?thesis
    using assms create_id_raises [of w s path e] by (simp add: ensure_try_def)
next
  case (Some c)
  show ?thesis
  proof (cases "read_fault w path")
    case None
    then show ?thesis
      using Some assms create_id_raises [of w s path e]
      by (simp add: ensure_try_def Let_def split: if_splits)
  next
    case (Some e')
    then have "is_Exception e'"
      using assms(1) unfolding fs_faults_are_errors_def by blast
    then show ?thesis
      using \<open>files s path = Some c\<close> Some assms(2) by (simp add: ensure_try_def)
  qed
qed

lemma ensure_instance_id_returns:
  assumes "fs_faults_are_errors w"
  shows "\<exists>r. fst (ensure_instance_id w s) = Inr r"
proof -
  obtain r s1 where t:
    "ensure_try w (snd (get_state_file w s)) (fst (get_state_file w s)) = (r, s1)"
    by (cases "ensure_try w (snd (get_state_file w s)) (fst (get_state_file w s))")
  show ?thesis
  proof (cases r)
    case (Inl e)
    then have "is_Exception e"
      using ensure_try_raises [OF assms, of "snd (get_state_file w s)"
          "fst (get_state_file w s)" e] t by simp
    then show ?thesis
      using Inl t by (simp add: ensure_instance_id_unfold)
  next
    case (Inr v)
    then show ?thesis
      using t by (simp add: ensure_instance_id_unfold)
  qed
qed

lemma ensure_instance_id_existing:
  assumes "files s (fst (get_state_file w s)) = Some c"
    and "read_fault w (fst (get_state_file w s)) = None" and "strip c \<noteq> []"
  shows "fst (ensure_instance_id w s) = Inr (strip c)"
    and "files (snd (ensure_instance_id w s)) = files s"
    and "uuid_count (snd (ensure_instance_id w s)) = uuid_count s"
  using assms
  by (simp_all add: ensure_instance_id_unfold ensure_try_def Let_def log_event_def)

lemma ensure_try_blank:
  assumes "files s path = None \<or>
      (\<exists>c. files s path = Some c \<and> read_fault w path = None \<and> strip c = [])"
  shows "ensure_try w s path = create_id w s path"
  using assms by (auto simp: ensure_try_def Let_def)

lemma ensure_instance_id_created:
  assumes "fs_faults_are_errors w"
    and "files s (fst (get_state_file w s)) = None \<or>
      (\<exists>c. files s (fst (get_state_file w s)) = Some c \<and>
           read_fault w (fst (get_state_file w s)) = None \<and> strip c = [])"
    and "open_fault w (fst (get_state_file w s)) = None"
    and "write_fault w (fst (get_state_file w s)) = None"
  shows "fst (ensure_instance_id w s) = Inr (uuid4 w (uuid_count s))"
    and "files (snd (ensure_instance_id w s))
           = (files s)(fst (get_state_file w s) \<mapsto> uuid4 w (uuid_count s))"
proof -
  let ?p = "fst (get_state_file w s)" and ?s0 = "snd (get_state_file w s)"
  have m: "\<And>e. makedirs_fault w ?p = Some e \<Longrightarrow> is_Exception e"
    using assms(1) unfolding fs_faults_are_errors_def by blast
  have b: "ensure_try w ?s0 ?p = create_id w ?s0 ?p"
    using assms(2) by (intro ensure_try_blank) simp
  obtain r s1 where c: "create_id w ?s0 ?p = (r, s1)"
    by (cases "create_id w ?s0 ?p")
  have "r = Inr (uuid4 w (uuid_count s))"
    and "files s1 = (files s)(?p \<mapsto> uuid4 w (uuid_count s))"
    using create_id_ok [OF assms(3,4) m, of ?s0] c by simp_all
  then show "fst (ensure_instance_id w s) = Inr (uuid4 w (uuid_count s))"
    and "files (snd (ensure_instance_id w s))
           = (files s)(fst (get_state_file w s) \<mapsto> uuid4 w (uuid_count s))"
    by (simp_all add: ensure_instance_id_unfold b c)
qed

lemma ensure_instance_id_read_fails:
  assumes "fs_faults_are_errors w"
    and "files s (fst (get_state_file w s)) = Some c"
    and "read_fault w (fst (get_state_file w s)) = Some e"
  shows "fst (ensure_instance_id w s) = Inr (uuid4 w (uuid_count s))"
    and "uuid_count (snd (ensure_instance_id w s)) = uuid_count s + 1"
    and "files (snd (ensure_instance_id w s)) = files s"
proof -
  have "is_Exception e"
    using assms(1,3) unfolding fs_faults_are_errors_def by blast
  then show "fst (ensure_instance_id w s) = Inr (uuid4 w (uuid_count s))"
    and "uuid_count (snd (ensure_instance_id w s)) = uuid_count s + 1"
    and "files (snd (ensure_instance_id w s)) = files s"
    using assms(2,3)
    by (simp_all add: ensure_instance_id_unfold ensure_try_def log_event_def)
qed

lemma ensure_instance_id_open_fails:
  assumes "fs_faults_are_errors w"
    and "files s (fst (get_state_file w s)) = None \<or>
      (\<exists>c. files s (fst (get_state_file w s)) = Some c \<and>
           read_fault w (fst (get_state_file w s)) = None \<and> strip c = [])"
    and "open_fault w (fst (get_state_file w s)) = Some e"
  shows "fst (ensure_instance_id w s) = Inr (uuid4 w (uuid_count s + 1))"
    and "uuid_count (snd (ensure_instance_id w s)) = uuid_count s + 2"
    and "files (snd (ensure_instance_id w s)) = files s"
proof -
  let ?p = "fst (get_state_file w s)" and ?s0 = "snd (get_state_file w s)"
  have m: "\<And>e. makedirs_fault w ?p = Some e \<Longrightarrow> is_Exception e"
    using assms(1) unfolding fs_faults_are_errors_def by blast
  have e: "is_Exception e"
    using assms(1,3) unfolding fs_faults_are_errors_def by blast
  have b: "ensure_try w ?s0 ?p = create_id w ?s0 ?p"
    using assms(2) by (intro ensure_try_blank) simp
  obtain r s1 where c: "create_id w ?s0 ?p = (r, s1)"
    by (cases "create_id w ?s0 ?p")
  have "r = Inl e" "files s1 = files s" "uuid_count s1 = uuid_count s + 1"
    using create_id_open_fails [OF assms(3) m, of ?s0] c by simp_all
  then show "fst (ensure_instance_id w s) = Inr (uuid4 w (uuid_count s + 1))"
    and "uuid_count (snd (ensure_instance_id w s)) = uuid_count s + 2"
    and "files (snd (ensure_instance_id w s)) = files s"
    using e by (simp_all add: ensure_instance_id_unfold b c log_event_def)
qed

lemma ensure_instance_id_write_fails:
  assumes "fs_faults_are_errors w"
    and "files s (fst (get_state_file w s)) = None \<or>
      (\<exists>c. files s (fst (get_state_file w s)) = Some c \<and>
           read_fault w (fst (get_state_file w s)) = None \<and> strip c = [])"
    and "open_fault w (fst (get_state_file w s)) = None"
    and "write_fault w (fst (get_state_file w s)) = Some e"
  shows "fst (ensure_instance_id w s) = Inr (uuid4 w (uuid_count s + 1))"
    and "uuid_count (snd (ensure_instance_id w s)) = uuid_count s + 2"
    and "files (snd (ensure_instance_id w s)) = (files s)(fst (get_state_file w s) \<mapsto> [])"
proof -
  let ?p = "fst (get_state_file w s)" and ?s0 = "snd (get_state_file w s)"
  have m: "\<And>e. makedirs_fault w ?p = Some e \<Longrightarrow> is_Exception e"
    using assms(1) unfolding fs_faults_are_errors_def by blast
  have e: "is_Exception e"
    using assms(1,4) unfolding fs_faults_are_errors_def by blast
  have b: "ensure_try w ?s0 ?p = create_id w ?s0 ?p"
    using assms(2) by (intro ensure_try_blank) simp
  obtain r s1 where c: "create_id w ?s0 ?p = (r, s1)"
    by (cases "create_id w ?s0 ?p")
  have "r = Inl e" "files s1 = (files s)(?p \<mapsto> [])" "uuid_count s1 = uuid_count s + 1"
    using create_id_write_fails [OF assms(3,4) m, of ?s0] c by simp_all
  then show "fst (ensure_instance_id w s) = Inr (uuid4 w (uuid_count s + 1))"
    and "uuid_count (snd (ensure_instance_id w s)) = uuid_count s + 2"
    and "files (snd (ensure_instance_id w s)) = (files s)(fst (get_state_file w s) \<mapsto> [])"
    using e by (simp_all add: ensure_instance_id_unfold b c log_event_def)
qed

lemma hash_id_abc:
  "hash_id ''abc'' = ''ba7816bf8f01cfea414140de5dae2223b00361a396177a9cb410ff61f20015ad''"
  by code_simp

section \<open>Lemmas on the digest and the payload\<close>

lemma length_sha_round: "length st = 8 \<Longrightarrow> length (sha_round st kw) = 8"
proof -
  assume "length st = 8"
  then obtain a b c d e f g h where "st = [a, b, c, d, e, f, g, h]"
    by (auto simp: length_Suc_conv eval_nat_numeral)
  then show ?thesis
    by (cases kw) (simp add: Let_def)
qed

lemma length_foldl_sha_round:
  "length st = 8 \<Longrightarrow> length (foldl sha_round st kws) = 8"
  by (induction kws arbitrary: st) (simp_all add: length_sha_round)

lemma length_compress: "length st = 8 \<Longrightarrow> length (compress st block) = 8"
  by (simp add: compress_def length_foldl_sha_round)

lemma length_sha_blocks: "length st = 8 \<Longrightarrow> length (sha_blocks n st bs) = 8"
  by (induction n arbitrary: st bs) (simp_all add: length_compress)

lemma length_sha256: "length (sha256 msg) = 8"
  by (simp add: sha256_def Let_def length_sha_blocks H256_def)

lemma length_hex_word: "length (hex_word x) = 8"
  by (simp add: hex_word_def)

lemma nibble_bound: "unat ((x :: u32) AND 15) < 16"
proof -
  have "unat (x AND 15) \<le> unat (15 :: u32)"
    by (rule word_and_le1 [THEN word_le_nat_alt [THEN iffD1]])
  then show ?thesis by simp
qed

lemma hex_digit_in: "n < 16 \<Longrightarrow> hex_digit n \<in> hex_chars"
  unfolding hex_digit_def hex_chars_def by (rule nth_mem) simp

lemma hex_word_chars: "set (hex_word x) \<subseteq> hex_chars"
  by (auto simp: hex_word_def intro: hex_digit_in nibble_bound)

lemma length_concat_const:
  "(\<And>x. x \<in> set xs \<Longrightarrow> length (f x) = k) \<Longrightarrow> length (concat (map f xs)) = k * length xs"
  by (induction xs) simp_all

lemma length_hexdigest: "length (hexdigest st) = 8 * length st"
  unfolding hexdigest_def by (rule length_concat_const) (rule length_hex_word)

lemma hexdigest_chars: "set (hexdigest st) \<subseteq> hex_chars"
  using hex_word_chars by (auto simp: hexdigest_def)

lemma length_hash_id: "length (hash_id raw) = 64"
  by (simp add: hash_id_def length_hexdigest length_sha256)

lemma hash_id_chars: "set (hash_id raw) \<subseteq> hex_chars"
  by (simp add: hash_id_def hexdigest_chars)

lemma digit_char_cases:
  assumes "n < 10"
  shows "digit_val (digit_char n) = n \<and> digit_char n \<in> digit_chars"
proof -
  have l: "[0..<10] = [0, 1, 2, 3, 4, 5, 6, 7, 8, 9 :: nat]"
    by (simp add: upt_rec)
  have "\<forall>k \<in> set [0..<10]. digit_val (digit_char k) = k \<and> digit_char k \<in> digit_chars"
    unfolding l by (simp add: digit_char_def digit_val_def digit_chars_def)
  moreover have "n \<in> set [0..<10]"
    using assms by simp
  ultimately show ?thesis
    by blast
qed

lemma number_of_4:
  assumes "a < 10" "b < 10" "c < 10" "e < 10"
  shows "number_of [digit_char a, digit_char b, digit_char c, digit_char e]
           = 10 * (10 * (10 * a + b) + c) + e"
  using digit_char_cases [OF assms(1)] digit_char_cases [OF assms(2)]
    digit_char_cases [OF assms(3)] digit_char_cases [OF assms(4)]
  by (simp add: number_of_def)

lemma number_of_2:
  assumes "a < 10" "b < 10"
  shows "number_of [digit_char a, digit_char b] = 10 * a + b"
  using digit_char_cases [OF assms(1)] digit_char_cases [OF assms(2)]
  by (simp add: number_of_def)

lemma digits_combine:
  fixes y :: nat
  assumes "y = 10 * A + r0" "A = 10 * B + r1" "B = 10 * C + r2"
  shows "10 * (10 * (10 * C + r2) + r1) + r0 = y"
  using assms by simp

lemma four_digits:
  fixes y :: nat
  assumes "y \<le> 9999"
  shows "10 * (10 * (10 * (y div 1000 mod 10) + y div 100 mod 10) + y div 10 mod 10)
           + y mod 10 = y"
proof -
  have a: "y div 100 = y div 10 div 10" "y div 1000 = y div 100 div 10"
    by (simp_all add: div_mult2_eq [symmetric])
  have "y < 1000 * 10" using assms by simp
  then have "y div 1000 < 10"
    by (simp only: div_less_iff_less_mult [of 1000 y 10, simplified])
  then have c: "y div 1000 mod 10 = y div 1000"
    by (rule mod_less)
  have e0: "y = 10 * (y div 10) + y mod 10"
    by (rule mult_div_mod_eq [symmetric])
  have e1: "y div 10 = 10 * (y div 100) + y div 10 mod 10"
    unfolding a by (rule mult_div_mod_eq [symmetric])
  have e2: "y div 100 = 10 * (y div 1000) + y div 100 mod 10"
    unfolding a(2) by (rule mult_div_mod_eq [symmetric])
  show ?thesis
    unfolding c by (rule digits_combine [OF e0 e1 e2])
qed

lemma two_digits:
  fixes m :: nat
  assumes "m \<le> 99"
  shows "10 * (m div 10 mod 10) + m mod 10 = m"
proof -
  have "m < 10 * 10" using assms by simp
  then have "m div 10 < 10"
    by (simp only: div_less_iff_less_mult [of 10 m 10, simplified])
  then have c: "m div 10 mod 10 = m div 10"
    by (rule mod_less)
  show ?thesis
    unfolding c by (rule mult_div_mod_eq)
qed

lemma take_drop_ten:
  "take 4 [a, b, c, d, e, f, g, h, i, j] = [a, b, c, d]"
  "take 2 (drop 5 [a, b, c, d, e, f, g, h, i, j]) = [f, g]"
  "drop 8 [a, b, c, d, e, f, g, h, i, j] = [i, j]"
  by simp_all

lemma strftime_ymd_format:
  assumes "valid_datetime d" "year d \<le> 9999"
  shows "length (strftime_ymd d) = 10"
    and "strftime_ymd d ! 4 = CHR ''-''" and "strftime_ymd d ! 7 = CHR ''-''"
    and "set (take 4 (strftime_ymd d)) \<subseteq> digit_chars"
    and "set (take 2 (drop 5 (strftime_ymd d))) \<subseteq> digit_chars"
    and "set (drop 8 (strftime_ymd d)) \<subseteq> digit_chars"
    and "number_of (take 4 (strftime_ymd d)) = year d"
    and "number_of (take 2 (drop 5 (strftime_ymd d))) = month d"
    and "number_of (drop 8 (strftime_ymd d)) = day d"
proof -
  have m: "month d \<le> 99"
    using assms(1) by (simp add: valid_datetime_def)
  have "days_in_month (year d) (month d) \<le> 31"
    by (simp add: days_in_month_def)
  then have dd: "day d \<le> 99"
    using assms(1) by (simp add: valid_datetime_def)
  have l: "\<And>n::nat. n mod 10 < 10"
    by simp
  have c: "\<And>n::nat. digit_char (n mod 10) \<in> digit_chars"
    using digit_char_cases l by blast
  show "length (strftime_ymd d) = 10"
    and "strftime_ymd d ! 4 = CHR ''-''" and "strftime_ymd d ! 7 = CHR ''-''"
    by (simp_all add: strftime_ymd_def)
  show "set (take 4 (strftime_ymd d)) \<subseteq> digit_chars"
    and "set (take 2 (drop 5 (strftime_ymd d))) \<subseteq> digit_chars"
    and "set (drop 8 (strftime_ymd d)) \<subseteq> digit_chars"
    unfolding strftime_ymd_def take_drop_ten using c by simp_all
  show "number_of (take 4 (strftime_ymd d)) = year d"
    unfolding strftime_ymd_def take_drop_ten number_of_4 [OF l l l l]
    by (rule four_digits [OF assms(2)])
  show "number_of (take 2 (drop 5 (strftime_ymd d))) = month d"
    unfolding strftime_ymd_def take_drop_ten number_of_2 [OF l l]
    by (rule two_digits [OF m])
  show "number_of (drop 8 (strftime_ymd d)) = day d"
    unfolding strftime_ymd_def take_drop_ten number_of_2 [OF l l]
    by (rule two_digits [OF dd])
qed

lemma make_payload_built:
  assumes "fst (make_payload w s) = Inr p"
  shows "\<exists>rid. fst (ensure_instance_id w s) = Inr rid \<and>
     p = [(''id'', JStr (hash_id rid)), (''date'', JStr (strftime_ymd (utc_now w))),
          (''projectname'', JStr PROJECT_NAME), (''project'', JStr PROJECT_NAME),
          (''count'', JInt 1)]"
  using assms
  by (auto simp: make_payload_def get_project_name_def
      split: prod.splits sum.splits option.splits)

lemma make_payload_returns:
  assumes "fs_faults_are_errors w" "payload_fault w = None"
  shows "\<exists>p. fst (make_payload w s) = Inr p"
  using ensure_instance_id_returns [OF assms(1), of s] assms(2)
  by (auto simp: make_payload_def split: prod.splits sum.splits)

section \<open>Lemmas on the transport and the send\<close>

lemma no_scheduling_refl [simp]: "no_scheduling s s"
  by (simp add: no_scheduling_def)

lemma no_scheduling_trans:
  "no_scheduling s s1 \<Longrightarrow> no_scheduling s1 s2 \<Longrightarrow> no_scheduling s s2"
  by (simp add: no_scheduling_def)

lemma identity_only_no_scheduling: "identity_only s s' \<Longrightarrow> no_scheduling s s'"
  by (simp add: identity_only_def no_scheduling_def)

lemma no_scheduling_log [simp]: "no_scheduling s (log_event l m s') = no_scheduling s s'"
  by (simp add: no_scheduling_def log_event_def)

lemma except_Exception_rel:
  assumes "R s (snd r)" and "\<And>s'. R s s' \<Longrightarrow> R s (snd (h s'))"
  shows "R s (snd (except_Exception r h))"
proof (cases r)
  case (Pair a b)
  then show ?thesis
    using assms by (cases a) auto
qed

lemma post_sync_posted:
  "posted (snd (post_sync w s url data t)) = posted s @ [(url, data)]"
  by (simp add: post_sync_def Let_def split: sum.split)

lemma post_sync_no_scheduling: "no_scheduling s (snd (post_sync w s url data t))"
  by (simp add: post_sync_def Let_def no_scheduling_def split: sum.split)

lemma post_sync_slept: "slept (snd (post_sync w s url data t)) = slept s"
  by (simp add: post_sync_def Let_def split: sum.split)

lemma post_sync_no_type:
  "Request url = Inl e \<Longrightarrow>
   post_sync w s url data t = (Inl e, s\<lparr>posted := posted s @ [(url, data)]\<rparr>)"
  by (simp add: post_sync_def)

lemma post_sync_returns:
  assumes "Request url = Inr r"
    and "\<And>e. urlopen w url data t = Inl e \<Longrightarrow> is_Exception e"
  shows "fst (post_sync w s url data t) = Inr ()"
    and "wire (snd (post_sync w s url data t)) = wire s @ [(url, data)]"
  using assms by (auto simp: post_sync_def Let_def split: sum.split)

lemma Request_no_scheme: "Request ''example.com/census'' = Inl ValueError"
  by code_simp

lemma Request_default: "Request DEFAULT_ENDPOINT = Inr DEFAULT_ENDPOINT"
  by code_simp

lemma send_try_posted:
  "posted (snd (send_try w s endpoint data)) =
     (if get_running_loop w = None then posted s @ [(endpoint, data)] else posted s)"
proof (cases "get_running_loop w")
  case None
  obtain r s2 where p: "post_sync w
      (log_event DEBUG ''telemetry POST -> %s (async, %d bytes)'' s) endpoint data 2 = (r, s2)"
    by (cases "post_sync w
      (log_event DEBUG ''telemetry POST -> %s (async, %d bytes)'' s) endpoint data 2")
  have "posted s2 = posted s @ [(endpoint, data)]"
    using post_sync_posted [of w "log_event DEBUG ''telemetry POST -> %s (async, %d bytes)'' s"
        endpoint data 2] p
    by (simp add: log_event_def)
  then show ?thesis
    using None p by (simp add: send_try_def Let_def split: sum.split option.split)
next
  case (Some e)
  then show ?thesis by (simp add: send_try_def)
qed

lemma send_try_no_scheduling: "no_scheduling s (snd (send_try w s endpoint data))"
proof (cases "get_running_loop w")
  case None
  obtain r s2 where p: "post_sync w
      (log_event DEBUG ''telemetry POST -> %s (async, %d bytes)'' s) endpoint data 2 = (r, s2)"
    by (cases "post_sync w
      (log_event DEBUG ''telemetry POST -> %s (async, %d bytes)'' s) endpoint data 2")
  have "no_scheduling s s2"
    using post_sync_no_scheduling [of
        "log_event DEBUG ''telemetry POST -> %s (async, %d bytes)'' s" w endpoint data 2] p
    by (simp add: no_scheduling_def log_event_def)
  then show ?thesis
    using None p by (simp add: send_try_def Let_def split: sum.split option.split)
next
  case (Some e)
  then show ?thesis by (simp add: send_try_def)
qed

lemma send_try_slept: "slept (snd (send_try w s endpoint data)) = slept s"
proof (cases "get_running_loop w")
  case None
  obtain r s2 where p: "post_sync w
      (log_event DEBUG ''telemetry POST -> %s (async, %d bytes)'' s) endpoint data 2 = (r, s2)"
    by (cases "post_sync w
      (log_event DEBUG ''telemetry POST -> %s (async, %d bytes)'' s) endpoint data 2")
  have "slept s2 = slept s"
    using post_sync_slept [of w
        "log_event DEBUG ''telemetry POST -> %s (async, %d bytes)'' s" endpoint data 2] p
    by (simp add: log_event_def)
  then show ?thesis
    using None p by (simp add: send_try_def Let_def split: sum.split option.split)
next
  case (Some e)
  then show ?thesis by (simp add: send_try_def)
qed

lemma except_pass_snd:
  "snd (except_Exception r (\<lambda>s'. (Inr v, s'))) = snd r"
  by (cases r; cases "fst r") auto

lemma log_once_skip_frame:
  "posted (log_once_skip s) = posted s" "no_scheduling s (log_once_skip s)"
  "slept (log_once_skip s) = slept s" "wire (log_once_skip s) = wire s"
  by (simp_all add: log_once_skip_def log_event_def no_scheduling_def)

lemma log_once_no_project_frame:
  "posted (log_once_no_project s) = posted s" "no_scheduling s (log_once_no_project s)"
  "slept (log_once_no_project s) = slept s" "wire (log_once_no_project s) = wire s"
  by (simp_all add: log_once_no_project_def log_event_def no_scheduling_def)

lemma project_name_nonempty: "get_project_name \<noteq> []"
  by (simp add: get_project_name_def PROJECT_NAME_def)

lemma async_skips:
  assumes "env_opt_out (getenv w)"
  shows "maybe_send_telemetry_async w s = (Inr (), log_once_skip s)"
  using assms by (simp add: maybe_send_telemetry_async_def Let_def)

lemma async_unfold:
  assumes "\<not> env_opt_out (getenv w)"
  shows "maybe_send_telemetry_async w s =
     (case make_payload w s of
        (Inl e, s1) \<Rightarrow> (Inl e, s1)
      | (Inr p, s1) \<Rightarrow>
          except_Exception
            (send_try w s1 (get_endpoint (getenv w)) (json_dumps '','' '':'' p))
            (\<lambda>s'. (Inr (), s')))"
  using assms
  by (simp add: maybe_send_telemetry_async_def Let_def get_endpoint_nonempty
      project_name_nonempty split: prod.split sum.split)

lemma async_posted:
  "posted (snd (maybe_send_telemetry_async w s)) =
     (if \<not> env_opt_out (getenv w) \<and> get_running_loop w = None then
        (case fst (make_payload w s) of
           Inl e \<Rightarrow> posted s
         | Inr p \<Rightarrow> posted s @ [(get_endpoint (getenv w), json_dumps '','' '':'' p)])
      else posted s)"
proof (cases "env_opt_out (getenv w)")
  case True
  then show ?thesis
    by (simp add: async_skips log_once_skip_frame)
next
  case False
  obtain r s1 where m: "make_payload w s = (r, s1)"
    by (cases "make_payload w s")
  have "identity_only s s1"
    using make_payload_frame [of s w] m by simp
  then have p: "posted s1 = posted s"
    by (simp add: identity_only_def)
  show ?thesis
    using False m p
    by (cases r) (simp_all add: async_unfold except_pass_snd send_try_posted)
qed

lemma async_no_scheduling: "no_scheduling s (snd (maybe_send_telemetry_async w s))"
proof (cases "env_opt_out (getenv w)")
  case True
  then show ?thesis
    by (simp add: async_skips log_once_skip_frame)
next
  case False
  obtain r s1 where m: "make_payload w s = (r, s1)"
    by (cases "make_payload w s")
  have a: "no_scheduling s s1"
    using make_payload_frame [of s w] m by (simp add: identity_only_no_scheduling)
  show ?thesis
  proof (cases r)
    case (Inl e)
    then show ?thesis using False m a by (simp add: async_unfold)
  next
    case (Inr p)
    have "no_scheduling s1
        (snd (send_try w s1 (get_endpoint (getenv w)) (json_dumps '','' '':'' p)))"
      by (rule send_try_no_scheduling)
    with a have "no_scheduling s
        (snd (send_try w s1 (get_endpoint (getenv w)) (json_dumps '','' '':'' p)))"
      by (rule no_scheduling_trans)
    then show ?thesis
      using False m Inr by (simp add: async_unfold except_pass_snd)
  qed
qed

lemma async_slept: "slept (snd (maybe_send_telemetry_async w s)) = slept s"
proof (cases "env_opt_out (getenv w)")
  case True
  then show ?thesis
    by (simp add: async_skips log_once_skip_frame)
next
  case False
  obtain r s1 where m: "make_payload w s = (r, s1)"
    by (cases "make_payload w s")
  have "identity_only s s1"
    using make_payload_frame [of s w] m by simp
  then have p: "slept s1 = slept s"
    by (simp add: identity_only_def)
  show ?thesis
    using False m p
    by (cases r) (simp_all add: async_unfold except_pass_snd send_try_slept)
qed

lemma Request_raises: "Request url = Inl e \<Longrightarrow> e = ValueError"
  by (auto simp: Request_def Let_def split: option.splits)

lemma post_sync_raises:
  assumes "fst (post_sync w s url data t) = Inl e"
  shows "e = ValueError \<or> (urlopen w url data t = Inl e \<and> \<not> is_Exception e)"
  using assms Request_raises [of url e]
  by (auto simp: post_sync_def Let_def split: sum.splits if_splits)

lemma send_try_raises:
  assumes "fst (send_try w s endpoint data) = Inl e"
  shows "e = ValueError \<or> await_fault w = Some e \<or> get_running_loop w = Some e
     \<or> (urlopen w endpoint data 2 = Inl e \<and> \<not> is_Exception e)"
proof (cases "get_running_loop w")
  case None
  obtain r s2 where p: "post_sync w
      (log_event DEBUG ''telemetry POST -> %s (async, %d bytes)'' s) endpoint data 2 = (r, s2)"
    by (cases "post_sync w
      (log_event DEBUG ''telemetry POST -> %s (async, %d bytes)'' s) endpoint data 2")
  show ?thesis
  proof (cases r)
    case (Inl e')
    then have "e' = e"
      using assms None p by (simp add: send_try_def Let_def)
    then show ?thesis
      using post_sync_raises [of w
          "log_event DEBUG ''telemetry POST -> %s (async, %d bytes)'' s" endpoint data 2 e]
        p Inl by auto
  next
    case (Inr u)
    then show ?thesis
      using assms None p by (simp add: send_try_def Let_def split: option.splits)
  qed
next
  case (Some e')
  then show ?thesis
    using assms by (simp add: send_try_def)
qed

section \<open>Lemmas on the background start\<close>

lemma init_state_file_frame: "identity_only s (snd (init_state_file w s))"
proof -
  obtain path s1 where g: "get_state_file w s = (path, s1)"
    by (cases "get_state_file w s")
  then have a: "identity_only s s1"
    using get_state_file_frame [of s w] by simp
  obtain r s2 where e: "ensure_instance_id w s1 = (r, s2)"
    by (cases "ensure_instance_id w s1")
  then have "identity_only s1 s2"
    using ensure_instance_id_frame [of s1 w] by simp
  with a have "identity_only s s2"
    by (rule identity_only_trans)
  then show ?thesis
    by (cases r) (simp_all add: init_state_file_def g e)
qed

lemma init_state_file_returns:
  assumes "fs_faults_are_errors w"
  shows "fst (init_state_file w s) = Inr ()"
proof -
  obtain path s1 where g: "get_state_file w s = (path, s1)"
    by (cases "get_state_file w s")
  obtain r where "fst (ensure_instance_id w s1) = Inr r"
    using ensure_instance_id_returns [OF assms] by blast
  then obtain s2 where "ensure_instance_id w s1 = (Inr r, s2)"
    by (cases "ensure_instance_id w s1") simp
  then show ?thesis
    by (simp add: init_state_file_def g)
qed

lemma ensure_future_cases:
  "ensure_future w s t = (Inr (), s\<lparr>tasks := tasks s @ [t]\<rparr>) \<or>
   (\<exists>e. ensure_future w s t = (Inl e, s))"
  by (cases "ensure_future_fault w t") (simp_all add: ensure_future_def)

lemma log_once_schedule_frame:
  "HAS_SCHEDULED_SEND (log_once_schedule s) = HAS_SCHEDULED_SEND s"
  "tasks (log_once_schedule s) = tasks s" "posted (log_once_schedule s) = posted s"
  by (simp_all add: log_once_schedule_def log_event_def)

lemma schedule_try_idle:
  "get_event_loop w \<noteq> LoopRunning \<Longrightarrow> snd (schedule_try w s) = s"
  by (cases "get_event_loop w") (simp_all add: schedule_try_def)

lemma schedule_try_no_loop:
  "get_event_loop w = NoLoop e \<Longrightarrow> schedule_try w s = (Inl e, s)"
  by (simp add: schedule_try_def)

lemma schedule_try_running:
  assumes "get_event_loop w = LoopRunning"
  shows "HAS_SCHEDULED_SEND (snd (schedule_try w s)) = HAS_SCHEDULED_SEND s
     \<and> posted (snd (schedule_try w s)) = posted s
     \<and> (tasks (snd (schedule_try w s)) = tasks s
        \<or> tasks (snd (schedule_try w s)) = tasks s @ [ImmediateSend]
        \<or> tasks (snd (schedule_try w s)) = tasks s @ [ImmediateSend, PeriodicLoop])"
proof -
  let ?s1 = "log_once_schedule s"
  consider (a) e where "ensure_future w ?s1 ImmediateSend = (Inl e, ?s1)"
    | (b) "ensure_future w ?s1 ImmediateSend = (Inr (), ?s1\<lparr>tasks := tasks ?s1 @ [ImmediateSend]\<rparr>)"
    using ensure_future_cases [of w ?s1 ImmediateSend] by blast
  then show ?thesis
  proof cases
    case a
    then show ?thesis
      using assms by (simp add: schedule_try_def Let_def log_once_schedule_frame)
  next
    case b
    let ?s2 = "?s1\<lparr>tasks := tasks ?s1 @ [ImmediateSend]\<rparr>"
    consider (c) e where "ensure_future w ?s2 PeriodicLoop = (Inl e, ?s2)"
      | (d) "ensure_future w ?s2 PeriodicLoop = (Inr (), ?s2\<lparr>tasks := tasks ?s2 @ [PeriodicLoop]\<rparr>)"
      using ensure_future_cases [of w ?s2 PeriodicLoop] by blast
    then show ?thesis
    proof cases
      case c
      then show ?thesis
        using assms b by (simp add: schedule_try_def Let_def log_once_schedule_frame)
    next
      case d
      then show ?thesis
        using assms b by (simp add: schedule_try_def Let_def log_once_schedule_frame)
    qed
  qed
qed

lemma schedule_try_frame:
  "HAS_SCHEDULED_SEND (snd (schedule_try w s)) = HAS_SCHEDULED_SEND s
     \<and> posted (snd (schedule_try w s)) = posted s
     \<and> (tasks (snd (schedule_try w s)) = tasks s
        \<or> tasks (snd (schedule_try w s)) = tasks s @ [ImmediateSend]
        \<or> tasks (snd (schedule_try w s)) = tasks s @ [ImmediateSend, PeriodicLoop])"
proof (cases "get_event_loop w = LoopRunning")
  case True
  then show ?thesis by (rule schedule_try_running)
next
  case False
  then show ?thesis by (simp add: schedule_try_idle)
qed

lemma fallback_post_state:
  "snd (fallback_post w s) =
     (case make_payload w s of
        (Inl e, s1) \<Rightarrow> s1
      | (Inr p, s1) \<Rightarrow>
          snd (post_sync w s1 (get_endpoint (getenv w)) (json_dumps '', '' '': '' p) 2))"
  by (simp add: fallback_post_def except_pass_snd split: prod.split sum.split)

lemma fallback_post_no_scheduling: "no_scheduling s (snd (fallback_post w s))"
proof -
  obtain r s1 where m: "make_payload w s = (r, s1)"
    by (cases "make_payload w s")
  have a: "no_scheduling s s1"
    using make_payload_frame [of s w] m by (simp add: identity_only_no_scheduling)
  show ?thesis
  proof (cases r)
    case (Inl e)
    then show ?thesis using m a by (simp add: fallback_post_state)
  next
    case (Inr p)
    have "no_scheduling s1
        (snd (post_sync w s1 (get_endpoint (getenv w)) (json_dumps '', '' '': '' p) 2))"
      by (rule post_sync_no_scheduling)
    with a show ?thesis
      using m Inr by (simp add: fallback_post_state no_scheduling_trans)
  qed
qed

lemma fallback_post_posted:
  assumes "fst (make_payload w s) = Inr p"
  shows "posted (snd (fallback_post w s))
           = posted s @ [(get_endpoint (getenv w), json_dumps '', '' '': '' p)]"
proof -
  obtain s1 where m: "make_payload w s = (Inr p, s1)"
    using assms by (cases "make_payload w s") simp
  have "identity_only s s1"
    using make_payload_frame [of s w] m by simp
  then have "posted s1 = posted s"
    by (simp add: identity_only_def)
  then show ?thesis
    using m by (simp add: fallback_post_state post_sync_posted)
qed

text \<open>The state after the first \<open>try\<close> block of a first call.\<close>

lemma background_unfold:
  assumes "\<not> HAS_SCHEDULED_SEND s"
  shows "maybe_send_telemetry_background w s =
     (case except_Exception (init_state_file w (s\<lparr>HAS_SCHEDULED_SEND := True\<rparr>))
             (\<lambda>s'. (Inr (), s')) of
        (Inl e, s1) \<Rightarrow> (Inl e, s1)
      | (Inr u, s1) \<Rightarrow> except_Exception (schedule_try w s1) (fallback_post w))"
  using assms by (simp add: maybe_send_telemetry_background_def Let_def)

lemma background_guard:
  "HAS_SCHEDULED_SEND s \<Longrightarrow> maybe_send_telemetry_background w s = (Inr (), s)"
  by (simp add: maybe_send_telemetry_background_def)

lemma except_Exception_state:
  "snd (except_Exception r h) = snd r \<or> snd (except_Exception r h) = snd (h (snd r))"
  by (cases r; cases "fst r") auto

lemma background_state:
  assumes "\<not> HAS_SCHEDULED_SEND s"
  obtains s1 where "identity_only (s\<lparr>HAS_SCHEDULED_SEND := True\<rparr>) s1"
    and "snd (maybe_send_telemetry_background w s) = s1
       \<or> snd (maybe_send_telemetry_background w s) = snd (schedule_try w s1)
       \<or> snd (maybe_send_telemetry_background w s) = snd (fallback_post w (snd (schedule_try w s1)))"
proof -
  let ?s0 = "s\<lparr>HAS_SCHEDULED_SEND := True\<rparr>"
  let ?i = "except_Exception (init_state_file w ?s0) (\<lambda>s'. (Inr (), s'))"
  let ?s1 = "snd (init_state_file w ?s0)"
  have s1: "snd ?i = ?s1"
    by (rule except_pass_snd)
  have f: "identity_only ?s0 ?s1"
    by (rule init_state_file_frame)
  obtain r where i: "?i = (r, ?s1)"
    using s1 by (cases ?i) simp
  have "snd (maybe_send_telemetry_background w s) = ?s1
       \<or> snd (maybe_send_telemetry_background w s) = snd (schedule_try w ?s1)
       \<or> snd (maybe_send_telemetry_background w s) = snd (fallback_post w (snd (schedule_try w ?s1)))"
  proof (cases r)
    case (Inl e)
    then show ?thesis
      using i by (simp add: background_unfold [OF assms])
  next
    case (Inr u)
    then show ?thesis
      using i except_Exception_state [of "schedule_try w ?s1" "fallback_post w"]
      by (auto simp: background_unfold [OF assms])
  qed
  with f show ?thesis
    using that by blast
qed

lemma background_sets_guard:
  "HAS_SCHEDULED_SEND (snd (maybe_send_telemetry_background w s))"
proof (cases "HAS_SCHEDULED_SEND s")
  case True
  then show ?thesis by (simp add: background_guard)
next
  case False
  obtain s1 where a: "identity_only (s\<lparr>HAS_SCHEDULED_SEND := True\<rparr>) s1"
    and b: "snd (maybe_send_telemetry_background w s) = s1
       \<or> snd (maybe_send_telemetry_background w s) = snd (schedule_try w s1)
       \<or> snd (maybe_send_telemetry_background w s) = snd (fallback_post w (snd (schedule_try w s1)))"
    by (rule background_state [OF False])
  have g: "HAS_SCHEDULED_SEND s1"
    using a by (simp add: identity_only_def)
  have h: "HAS_SCHEDULED_SEND (snd (schedule_try w s1))"
    using schedule_try_frame [of w s1] g by simp
  have "HAS_SCHEDULED_SEND (snd (fallback_post w (snd (schedule_try w s1))))"
    using fallback_post_no_scheduling [of "snd (schedule_try w s1)" w] h
    by (simp add: no_scheduling_def)
  then show ?thesis
    using b g h by auto
qed

lemma background_tasks:
  assumes "\<not> HAS_SCHEDULED_SEND s"
  shows "tasks (snd (maybe_send_telemetry_background w s)) = tasks s
     \<or> tasks (snd (maybe_send_telemetry_background w s)) = tasks s @ [ImmediateSend]
     \<or> tasks (snd (maybe_send_telemetry_background w s)) = tasks s @ [ImmediateSend, PeriodicLoop]"
proof -
  obtain s1 where a: "identity_only (s\<lparr>HAS_SCHEDULED_SEND := True\<rparr>) s1"
    and b: "snd (maybe_send_telemetry_background w s) = s1
       \<or> snd (maybe_send_telemetry_background w s) = snd (schedule_try w s1)
       \<or> snd (maybe_send_telemetry_background w s) = snd (fallback_post w (snd (schedule_try w s1)))"
    by (rule background_state [OF assms])
  have g: "tasks s1 = tasks s"
    using a by (simp add: identity_only_def)
  have h: "tasks (snd (schedule_try w s1)) = tasks s
        \<or> tasks (snd (schedule_try w s1)) = tasks s @ [ImmediateSend]
        \<or> tasks (snd (schedule_try w s1)) = tasks s @ [ImmediateSend, PeriodicLoop]"
    using schedule_try_frame [of w s1] g by simp
  have f: "tasks (snd (fallback_post w (snd (schedule_try w s1)))) = tasks (snd (schedule_try w s1))"
    using fallback_post_no_scheduling [of "snd (schedule_try w s1)" w]
    by (simp add: no_scheduling_def)
  show ?thesis
    using b g h f by auto
qed

lemma background_no_running_loop:
  assumes "\<not> HAS_SCHEDULED_SEND s" "get_event_loop w \<noteq> LoopRunning"
  shows "tasks (snd (maybe_send_telemetry_background w s)) = tasks s"
proof -
  obtain s1 where a: "identity_only (s\<lparr>HAS_SCHEDULED_SEND := True\<rparr>) s1"
    and b: "snd (maybe_send_telemetry_background w s) = s1
       \<or> snd (maybe_send_telemetry_background w s) = snd (schedule_try w s1)
       \<or> snd (maybe_send_telemetry_background w s) = snd (fallback_post w (snd (schedule_try w s1)))"
    by (rule background_state [OF assms(1)])
  have g: "tasks s1 = tasks s"
    using a by (simp add: identity_only_def)
  have h: "snd (schedule_try w s1) = s1"
    using assms(2) by (rule schedule_try_idle)
  have f: "tasks (snd (fallback_post w s1)) = tasks s1"
    using fallback_post_no_scheduling [of s1 w] by (simp add: no_scheduling_def)
  show ?thesis
    using b g h f by auto
qed

lemma background_calls_guarded:
  "HAS_SCHEDULED_SEND s \<Longrightarrow> background_calls ws s = s"
  by (induction ws) (simp_all add: background_guard)

lemma background_calls_first:
  "background_calls (w # ws) s = snd (maybe_send_telemetry_background w s)"
  using background_calls_guarded [OF background_sets_guard [of w s], of ws] by simp

lemma background_fallback_posted:
  assumes "\<not> HAS_SCHEDULED_SEND s" "get_event_loop w = NoLoop e" "is_Exception e"
    and "fs_faults_are_errors w" "payload_fault w = None"
  shows "\<exists>body. posted (snd (maybe_send_telemetry_background w s))
           = posted s @ [(get_endpoint (getenv w), body)]"
proof -
  let ?s0 = "s\<lparr>HAS_SCHEDULED_SEND := True\<rparr>"
  obtain s1 where i: "init_state_file w ?s0 = (Inr (), s1)"
    using init_state_file_returns [OF assms(4), of ?s0]
    by (cases "init_state_file w ?s0") simp
  have "identity_only ?s0 s1"
    using init_state_file_frame [of ?s0 w] i by simp
  then have p1: "posted s1 = posted s"
    by (simp add: identity_only_def)
  obtain p where m: "fst (make_payload w s1) = Inr p"
    using make_payload_returns [OF assms(4,5)] by blast
  have "maybe_send_telemetry_background w s = fallback_post w s1"
    using assms(3) by (simp add: background_unfold [OF assms(1)] i
        schedule_try_no_loop [OF assms(2)])
  then show ?thesis
    using fallback_post_posted [OF m] p1 by simp
qed

section \<open>Claims on the policy resolver\<close>

text \<open>
  C2. For every environment, the opt-out predicate is true exactly when the
  project-specific opt-out variable is truthy, or the generic opt-out variable
  \<open>TELEMETRY_OPTOUT\<close> is truthy, or the generic enable variable \<open>TELEMETRY\<close> is set and
  falsy. A value is truthy exactly when it is present and, trimmed and lower-cased, is one
  of \<open>1, true, yes, on, y, t\<close>; falsy exactly when it is present and, trimmed and
  lower-cased, is one of \<open>0, false, no, off, n, f\<close>. An absent value is neither, and no
  value is both.
\<close>

theorem env_opt_out_correct:
  "(env_opt_out env \<longleftrightarrow>
      env_truthy (env OPTOUT_ENV_VAR) \<or> env_truthy (env ''TELEMETRY_OPTOUT'') \<or>
      (\<exists>tel. env ''TELEMETRY'' = Some tel \<and> env_falsy (Some tel)))
   \<and> (env_truthy v \<longleftrightarrow>
        (\<exists>s. v = Some s \<and>
           lower (strip s) \<in> {''1'', ''true'', ''yes'', ''on'', ''y'', ''t''}))
   \<and> (env_falsy v \<longleftrightarrow>
        (\<exists>s. v = Some s \<and>
           lower (strip s) \<in> {''0'', ''false'', ''no'', ''off'', ''n'', ''f''}))
   \<and> \<not> env_truthy None \<and> \<not> env_falsy None
   \<and> \<not> (env_truthy v \<and> env_falsy v)"
proof -
  have t: "env_truthy v \<longleftrightarrow>
        (\<exists>s. v = Some s \<and>
           lower (strip s) \<in> {''1'', ''true'', ''yes'', ''on'', ''y'', ''t''})"
    unfolding env_truthy_iff by (simp add: truthy_tokens_def)
  have f: "env_falsy v \<longleftrightarrow>
        (\<exists>s. v = Some s \<and>
           lower (strip s) \<in> {''0'', ''false'', ''no'', ''off'', ''n'', ''f''})"
    unfolding env_falsy_iff by (simp add: falsy_tokens_def)
  show ?thesis
    using t f env_opt_out_iff [of env] env_truthy_None env_falsy_None
      not_truthy_and_falsy [of v]
    by blast
qed

theorem env_opt_out_correct_witness:
  "env_opt_out [''TELEMETRY'' \<mapsto> '' Off ''] \<and> env_falsy (Some '' Off'')
   \<and> \<not> env_truthy (Some '' Off'')"
proof -
  have a: "lower (strip '' Off '') = ''off''"
    by code_simp
  have b: "lower (strip '' Off'') = ''off''"
    by code_simp
  have c: "OPTOUT_ENV_VAR \<noteq> ''TELEMETRY''" "OPTOUT_ENV_VAR \<noteq> ''TELEMETRY_OPTOUT''"
    by (simp_all add: OPTOUT_ENV_VAR_def)
  have d: "env_falsy (Some '' Off '')"
    using a by (simp add: env_falsy_def falsy_tokens_def)
  show ?thesis
    using env_opt_out_correct [of "[''TELEMETRY'' \<mapsto> '' Off '']" "Some '' Off''"] a b c d
    by (simp add: env_truthy_None)
qed

section \<open>Claim on the boundary computation\<close>

text \<open>
  C4. For every clock reading: at (or before) the top of an even hour the result is the
  delay to the boundary two hours after that top; within an odd hour it is the delay to
  the top of the next hour, which is even; strictly after the top of an even hour it is
  the delay to the boundary two hours after that top. The target is always the top of an
  even hour, strictly in the future, and the result is never below 1. At
  2024-01-01T01:30:00Z the target is 02:00:00Z and the result 1800 seconds; at
  02:00:00Z the target is 04:00:00Z and the result 7200 seconds; at 03:59:59Z the target
  is 04:00:00Z and the result 1 second.
\<close>

theorem next_even_utc_hour_correct:
  assumes "valid_datetime now"
  shows
   "(to_us now \<le> top_of_hour now \<and> even (hour now) \<longrightarrow>
       seconds_until_next_even_utc_hour now
         = max 1 (total_seconds (top_of_hour now + 2 * hour_us - to_us now)))
  \<and> (odd (hour now) \<longrightarrow>
       seconds_until_next_even_utc_hour now
         = max 1 (total_seconds (top_of_hour now + hour_us - to_us now)))
  \<and> (top_of_hour now < to_us now \<and> even (hour now) \<longrightarrow>
       seconds_until_next_even_utc_hour now
         = max 1 (total_seconds (top_of_hour now + 2 * hour_us - to_us now)))
  \<and> to_us (next_even_utc_hour now)
       = top_of_hour now + (if even (hour now) then 2 else 1) * hour_us
  \<and> even (hour (next_even_utc_hour now)) \<and> minute (next_even_utc_hour now) = 0
  \<and> second (next_even_utc_hour now) = 0 \<and> microsecond (next_even_utc_hour now) = 0
  \<and> to_us now < to_us (next_even_utc_hour now)
  \<and> 1 \<le> seconds_until_next_even_utc_hour now
  \<and> next_even_utc_hour (utc 2024 1 1 1 30 0 0) = utc 2024 1 1 2 0 0 0
  \<and> seconds_until_next_even_utc_hour (utc 2024 1 1 1 30 0 0) = 30 * 60
  \<and> next_even_utc_hour (utc 2024 1 1 2 0 0 0) = utc 2024 1 1 4 0 0 0
  \<and> seconds_until_next_even_utc_hour (utc 2024 1 1 2 0 0 0) = 2 * 3600
  \<and> next_even_utc_hour (utc 2024 1 1 3 59 59 0) = utc 2024 1 1 4 0 0 0
  \<and> seconds_until_next_even_utc_hour (utc 2024 1 1 3 59 59 0) = 1"
proof -
  have t: "to_us (next_even_utc_hour now)
       = top_of_hour now + (if even (hour now) then 2 else 1) * hour_us"
    using to_us_next_even_utc_hour [OF assms] by (simp add: even_iff_mod_2_eq_zero)
  have a: "even (hour (next_even_utc_hour now))" "minute (next_even_utc_hour now) = 0"
    "second (next_even_utc_hour now) = 0" "microsecond (next_even_utc_hour now) = 0"
    using next_even_utc_hour_aligned [OF assms] by (simp_all add: even_iff_mod_2_eq_zero)
  have "0 < hour_us" by (simp add: hour_us_def)
  then have l: "to_us now < to_us (next_even_utc_hour now)"
    using to_us_less_next_hour [OF assms] unfolding t by (simp split: if_splits)
  have m: "1 \<le> seconds_until_next_even_utc_hour now"
    unfolding seconds_until_eq by simp
  have e1: "next_even_utc_hour (utc 2024 1 1 1 30 0 0) = utc 2024 1 1 2 0 0 0"
    by (simp add: next_even_utc_hour_cases add_hours_def utc_def)
  have e2: "next_even_utc_hour (utc 2024 1 1 2 0 0 0) = utc 2024 1 1 4 0 0 0"
    by (simp add: next_even_utc_hour_cases add_hours_def utc_def)
  have e3: "next_even_utc_hour (utc 2024 1 1 3 59 59 0) = utc 2024 1 1 4 0 0 0"
    by (simp add: next_even_utc_hour_cases add_hours_def utc_def)
  have s1: "seconds_until_next_even_utc_hour (utc 2024 1 1 1 30 0 0) = 30 * 60"
    unfolding seconds_until_eq e1
    by (simp add: utc_def to_us_def toordinal_def total_seconds_def)
  have s2: "seconds_until_next_even_utc_hour (utc 2024 1 1 2 0 0 0) = 2 * 3600"
    unfolding seconds_until_eq e2
    by (simp add: utc_def to_us_def toordinal_def total_seconds_def)
  have s3: "seconds_until_next_even_utc_hour (utc 2024 1 1 3 59 59 0) = 1"
    unfolding seconds_until_eq e3
    by (simp add: utc_def to_us_def toordinal_def total_seconds_def)
  show ?thesis
    unfolding seconds_until_eq t
    using a l m e1 e2 e3 s1 s2 s3 unfolding seconds_until_eq t
    by simp
qed

theorem next_even_utc_hour_correct_witness:
  "valid_datetime (utc 2024 1 1 3 59 59 500000)
   \<and> seconds_until_next_even_utc_hour (utc 2024 1 1 3 59 59 500000) = 1
   \<and> to_us (utc 2024 1 1 3 59 59 500000) < to_us (next_even_utc_hour (utc 2024 1 1 3 59 59 500000))"
proof -
  have v: "valid_datetime (utc 2024 1 1 3 59 59 500000)"
    by (simp add: valid_datetime_def utc_def days_in_month_def)
  have h: "hour (utc 2024 1 1 3 59 59 500000) = 3"
    by (simp add: utc_def)
  have d: "top_of_hour (utc 2024 1 1 3 59 59 500000) + hour_us
             - to_us (utc 2024 1 1 3 59 59 500000) = 500000"
    by (simp add: top_of_hour_def to_us_def toordinal_def utc_def hour_us_def)
  show ?thesis
    using next_even_utc_hour_correct [OF v] v unfolding h d
    by (simp add: total_seconds_def)
qed

section \<open>Claim on the identity store\<close>

text \<open>
  C6, as stated, fails. A state file that holds only a line feed exists with non-empty
  content, and its trimmed content is empty: the function does not return it but draws
  a new identifier and overwrites the file. And a failure to create the parent
  directory, a filesystem operation, does not lead to an ephemeral identifier: the new
  identifier is written and returned.
\<close>

theorem ensure_instance_id_blank_file_counterexample:
  "files (initial [''/srv/app/.telemetry_id'' \<mapsto> [CHR 0x0A]])
       (fst (get_state_file quiet_world (initial [''/srv/app/.telemetry_id'' \<mapsto> [CHR 0x0A]])))
     = Some [CHR 0x0A]
   \<and> strip [CHR 0x0A] = []
   \<and> fst (ensure_instance_id quiet_world
            (initial [''/srv/app/.telemetry_id'' \<mapsto> [CHR 0x0A]])) = Inr ''uuid-0''
   \<and> files (snd (ensure_instance_id quiet_world
            (initial [''/srv/app/.telemetry_id'' \<mapsto> [CHR 0x0A]])))
        ''/srv/app/.telemetry_id'' = Some ''uuid-0''
   \<and> makedirs_fault (quiet_world\<lparr>makedirs_fault := (\<lambda>p. Some OSError)\<rparr>)
        ''/srv/app/.telemetry_id'' = Some OSError
   \<and> fst (ensure_instance_id (quiet_world\<lparr>makedirs_fault := (\<lambda>p. Some OSError)\<rparr>)
            (initial Map.empty)) = Inr ''uuid-0''
   \<and> files (snd (ensure_instance_id (quiet_world\<lparr>makedirs_fault := (\<lambda>p. Some OSError)\<rparr>)
            (initial Map.empty)))
        ''/srv/app/.telemetry_id'' = Some ''uuid-0''"
proof -
  have s: "strip [CHR 0x0A] = []"
    by (simp add: strip_def is_space_def)
  have d: "decimal 0 = ''0''"
    by (simp add: digit_char_def)
  show ?thesis
    by (simp add: s d ensure_instance_id_unfold ensure_try_def create_id_def new_uuid_def
        get_state_file_def quiet_world_def initial_def log_event_def is_Exception_def
        digit_char_def Let_def)
qed

text \<open>
  C6, amended. Let the path be the resolved state file, and let every failure of the
  filesystem be an error (an exception of class \<open>Exception\<close>). Then
  \<open>_ensure_instance_id\<close> returns and does not raise. If the file exists, can be read
  and its trimmed content is not empty, it returns the trimmed content and leaves the
  files alone. If the file is missing, or is read and blank after trimming, and the file
  can be opened and written, it draws a new identifier, writes it to the file and
  returns it, whether or not the parent directory could be created. If the read fails,
  or the file cannot be opened or written, it returns a fresh identifier, drawn after
  every earlier one and never drawn again, and does not write it: the files are as
  before, except that a failed write leaves the state file empty.
\<close>

theorem ensure_instance_id_correct:
  assumes "fs_faults_are_errors w"
  shows
   "(\<exists>r. fst (ensure_instance_id w s) = Inr r)
  \<and> (\<forall>c. files s (fst (get_state_file w s)) = Some c
         \<and> read_fault w (fst (get_state_file w s)) = None \<and> strip c \<noteq> []
       \<longrightarrow> fst (ensure_instance_id w s) = Inr (strip c)
         \<and> files (snd (ensure_instance_id w s)) = files s
         \<and> uuid_count (snd (ensure_instance_id w s)) = uuid_count s)
  \<and> ((files s (fst (get_state_file w s)) = None \<or>
       (\<exists>c. files s (fst (get_state_file w s)) = Some c \<and>
            read_fault w (fst (get_state_file w s)) = None \<and> strip c = []))
      \<and> open_fault w (fst (get_state_file w s)) = None
      \<and> write_fault w (fst (get_state_file w s)) = None
       \<longrightarrow> fst (ensure_instance_id w s) = Inr (uuid4 w (uuid_count s))
         \<and> files (snd (ensure_instance_id w s))
             = (files s)(fst (get_state_file w s) \<mapsto> uuid4 w (uuid_count s)))
  \<and> ((\<exists>c e. files s (fst (get_state_file w s)) = Some c
            \<and> read_fault w (fst (get_state_file w s)) = Some e)
       \<longrightarrow> fst (ensure_instance_id w s) = Inr (uuid4 w (uuid_count s))
         \<and> uuid_count (snd (ensure_instance_id w s)) = uuid_count s + 1
         \<and> files (snd (ensure_instance_id w s)) = files s)
  \<and> ((files s (fst (get_state_file w s)) = None \<or>
       (\<exists>c. files s (fst (get_state_file w s)) = Some c \<and>
            read_fault w (fst (get_state_file w s)) = None \<and> strip c = []))
      \<and> (\<exists>e. open_fault w (fst (get_state_file w s)) = Some e)
       \<longrightarrow> fst (ensure_instance_id w s) = Inr (uuid4 w (uuid_count s + 1))
         \<and> uuid_count (snd (ensure_instance_id w s)) = uuid_count s + 2
         \<and> files (snd (ensure_instance_id w s)) = files s)
  \<and> ((files s (fst (get_state_file w s)) = None \<or>
       (\<exists>c. files s (fst (get_state_file w s)) = Some c \<and>
            read_fault w (fst (get_state_file w s)) = None \<and> strip c = []))
      \<and> open_fault w (fst (get_state_file w s)) = None
      \<and> (\<exists>e. write_fault w (fst (get_state_file w s)) = Some e)
       \<longrightarrow> fst (ensure_instance_id w s) = Inr (uuid4 w (uuid_count s + 1))
         \<and> uuid_count (snd (ensure_instance_id w s)) = uuid_count s + 2
         \<and> files (snd (ensure_instance_id w s))
             = (files s)(fst (get_state_file w s) \<mapsto> []))"
  (is "?A \<and> ?B \<and> ?C \<and> ?D \<and> ?E \<and> ?F")
proof -
  have a: ?A
    by (rule ensure_instance_id_returns [OF assms])
  have b: ?B
    using ensure_instance_id_existing [of s w] by blast
  have c: ?C
    using ensure_instance_id_created [OF assms, of s] by blast
  have d: ?D
    using ensure_instance_id_read_fails [OF assms, of s] by blast
  have e: ?E
    using ensure_instance_id_open_fails [OF assms, of s] by blast
  have f: ?F
    using ensure_instance_id_write_fails [OF assms, of s] by blast
  show ?thesis
    by (rule conjI [OF a conjI [OF b conjI [OF c conjI [OF d conjI [OF e f]]]]])
qed

theorem ensure_instance_id_correct_witness:
  "fs_faults_are_errors (quiet_world\<lparr>open_fault := (\<lambda>p. Some OSError)\<rparr>)
   \<and> fst (ensure_instance_id (quiet_world\<lparr>open_fault := (\<lambda>p. Some OSError)\<rparr>)
          (initial Map.empty)) = Inr ''uuid-1''
   \<and> files (snd (ensure_instance_id (quiet_world\<lparr>open_fault := (\<lambda>p. Some OSError)\<rparr>)
          (initial Map.empty))) = Map.empty"
proof -
  let ?w = "quiet_world\<lparr>open_fault := (\<lambda>p. Some OSError)\<rparr>"
  have f: "fs_faults_are_errors ?w"
    by (simp add: fs_faults_are_errors_def quiet_world_def is_Exception_def)
  have d: "uuid4 ?w (uuid_count (initial Map.empty) + 1) = ''uuid-1''"
    by (simp add: quiet_world_def initial_def digit_char_def)
  have o: "open_fault ?w (fst (get_state_file ?w (initial Map.empty))) = Some OSError"
    by simp
  have n: "files (initial Map.empty) (fst (get_state_file ?w (initial Map.empty))) = None"
    by (simp add: initial_def)
  have i: "files (initial Map.empty) = Map.empty"
    by (simp add: initial_def)
  show ?thesis
    using ensure_instance_id_correct [OF f, of "initial Map.empty"] f o n
    unfolding d i by blast
qed

section \<open>Claim on the payload\<close>

text \<open>
  C7. Every payload that is built has exactly the keys \<open>id\<close>, \<open>date\<close>, \<open>projectname\<close>,
  \<open>project\<close> and \<open>count\<close>, in this order. Its \<open>id\<close> is the SHA-256 digest of the
  identifier the identity store returned, in hexadecimal: 64 characters, each one of
  \<open>0123456789abcdef\<close>; the identifier itself is no part of the payload. Its \<open>date\<close> is
  the date of the clock, four digits of the year, a dash, two digits of the month, a
  dash, two digits of the day. \<open>projectname\<close> and \<open>project\<close> are the project constant,
  and \<open>count\<close> is 1. The digest is the standard one: it maps \<open>abc\<close> to the value FIPS
  180-4 gives.
\<close>

theorem make_payload_correct:
  assumes "fst (make_payload w s) = Inr p"
    and "valid_datetime (utc_now w)" and "year (utc_now w) \<le> 9999"
  shows
   "map fst p = [''id'', ''date'', ''projectname'', ''project'', ''count'']
  \<and> (\<exists>rid. fst (ensure_instance_id w s) = Inr rid
        \<and> p = [(''id'', JStr (hash_id rid)), (''date'', JStr (strftime_ymd (utc_now w))),
               (''projectname'', JStr PROJECT_NAME), (''project'', JStr PROJECT_NAME),
               (''count'', JInt 1)]
        \<and> hash_id rid = hexdigest (sha256 (encode_utf8 rid))
        \<and> length (hash_id rid) = 64 \<and> set (hash_id rid) \<subseteq> hex_chars)
  \<and> length (strftime_ymd (utc_now w)) = 10
  \<and> strftime_ymd (utc_now w) ! 4 = CHR ''-'' \<and> strftime_ymd (utc_now w) ! 7 = CHR ''-''
  \<and> set (take 4 (strftime_ymd (utc_now w))) \<subseteq> digit_chars
  \<and> set (take 2 (drop 5 (strftime_ymd (utc_now w)))) \<subseteq> digit_chars
  \<and> set (drop 8 (strftime_ymd (utc_now w))) \<subseteq> digit_chars
  \<and> number_of (take 4 (strftime_ymd (utc_now w))) = year (utc_now w)
  \<and> number_of (take 2 (drop 5 (strftime_ymd (utc_now w)))) = month (utc_now w)
  \<and> number_of (drop 8 (strftime_ymd (utc_now w))) = day (utc_now w)
  \<and> hash_id ''abc'' = ''ba7816bf8f01cfea414140de5dae2223b00361a396177a9cb410ff61f20015ad''"
proof -
  obtain rid where r: "fst (ensure_instance_id w s) = Inr rid"
    and p: "p = [(''id'', JStr (hash_id rid)), (''date'', JStr (strftime_ymd (utc_now w))),
               (''projectname'', JStr PROJECT_NAME), (''project'', JStr PROJECT_NAME),
               (''count'', JInt 1)]"
    using make_payload_built [OF assms(1)] by blast
  have k: "map fst p = [''id'', ''date'', ''projectname'', ''project'', ''count'']"
    by (simp add: p)
  have h: "hash_id rid = hexdigest (sha256 (encode_utf8 rid))"
    by (simp add: hash_id_def)
  have i: "\<exists>rid. fst (ensure_instance_id w s) = Inr rid
        \<and> p = [(''id'', JStr (hash_id rid)), (''date'', JStr (strftime_ymd (utc_now w))),
               (''projectname'', JStr PROJECT_NAME), (''project'', JStr PROJECT_NAME),
               (''count'', JInt 1)]
        \<and> hash_id rid = hexdigest (sha256 (encode_utf8 rid))
        \<and> length (hash_id rid) = 64 \<and> set (hash_id rid) \<subseteq> hex_chars"
    using r p h length_hash_id [of rid] hash_id_chars [of rid] by blast
  show ?thesis
    using k i strftime_ymd_format [OF assms(2,3)] hash_id_abc
    by (intro conjI)
qed

theorem make_payload_correct_witness:
  "fst (make_payload quiet_world (initial Map.empty))
     = Inr [(''id'', JStr (hash_id ''uuid-0'')), (''date'', JStr ''2024-01-01''),
            (''projectname'', JStr ''<PROJECT_NAME>''), (''project'', JStr ''<PROJECT_NAME>''),
            (''count'', JInt 1)]
   \<and> valid_datetime (utc_now quiet_world) \<and> year (utc_now quiet_world) \<le> 9999
   \<and> length (hash_id ''uuid-0'') = 64
   \<and> number_of (take 4 (strftime_ymd (utc_now quiet_world))) = 2024"
proof -
  have d: "decimal 0 = ''0''"
    by (simp add: digit_char_def)
  have e: "fst (ensure_instance_id quiet_world (initial Map.empty)) = Inr ''uuid-0''"
    by (simp add: d ensure_instance_id_unfold ensure_try_def create_id_def new_uuid_def
        get_state_file_def quiet_world_def initial_def log_event_def Let_def
        digit_char_def)
  have t: "strftime_ymd (utc_now quiet_world) = ''2024-01-01''"
    by (simp add: quiet_world_def utc_def strftime_ymd_def digit_char_def)
  have m: "fst (make_payload quiet_world (initial Map.empty))
     = Inr [(''id'', JStr (hash_id ''uuid-0'')), (''date'', JStr ''2024-01-01''),
            (''projectname'', JStr ''<PROJECT_NAME>''), (''project'', JStr ''<PROJECT_NAME>''),
            (''count'', JInt 1)]"
  proof -
    have f: "payload_fault quiet_world = None"
      by (simp add: quiet_world_def)
    obtain s1 where "ensure_instance_id quiet_world (initial Map.empty) = (Inr ''uuid-0'', s1)"
      using e by (cases "ensure_instance_id quiet_world (initial Map.empty)") simp
    then show ?thesis
      by (simp add: make_payload_def f t get_project_name_def PROJECT_NAME_def)
  qed
  have v: "valid_datetime (utc_now quiet_world)"
    by (simp add: quiet_world_def utc_def valid_datetime_def days_in_month_def)
  have y: "year (utc_now quiet_world) \<le> 9999" "year (utc_now quiet_world) = 2024"
    by (simp_all add: quiet_world_def utc_def)
  obtain rid where r: "fst (ensure_instance_id quiet_world (initial Map.empty)) = Inr rid"
      "length (hash_id rid) = 64"
    and n: "number_of (take 4 (strftime_ymd (utc_now quiet_world))) = year (utc_now quiet_world)"
    using make_payload_correct [OF m v y(1)] by blast
  have "length (hash_id ''uuid-0'') = 64"
    using r e by simp
  then show ?thesis
    using m v y n by simp
qed

end
